theory Spec2Isabelle
  imports Complex_Main "HOL-Library.Log_Nat"
begin

section \<open>Data model (data\_structures.py)\<close>

text \<open>
  In the solver function Python floats are modelled as real numbers, Python ints as
  \<open>int\<close>, and the float sentinel \<open>float('inf')\<close> of the load matrix as a constructor
  of its own. The dataclass field \<open>id\<close> is renamed (\<open>w_id\<close>, \<open>s_id\<close>): the name is
  taken in HOL.
\<close>

record WorkerUnit =
  w_id :: string
  accelerator_type :: string
  accelerator_count :: int
  model_server_type :: string
  cost :: real
  max_limit :: "int option"

record Slice =
  s_id :: int
  request_type_id :: string
  rate_portion :: real

type_synonym ProfileData = "(string \<times> string) \<rightharpoonup> real"

text \<open>A dict is iterated in insertion order: the demand is an association list.\<close>

type_synonym DistributionData = "(string \<times> real) list"

section \<open>Step 1 of solve\_provisioning\_ilp: creating the slices\<close>

text \<open>The inner loop \<open>for i in range(current_slice_factor)\<close>.\<close>

definition new_slices :: "int \<Rightarrow> string \<Rightarrow> real \<Rightarrow> int \<Rightarrow> Slice list" where
  "new_slices slice_id_counter req_type_id portion current_slice_factor =
     map (\<lambda>i. \<lparr>s_id = slice_id_counter + i, request_type_id = req_type_id,
               rate_portion = portion\<rparr>)
         [0 .. current_slice_factor - 1]"

text \<open>
  The outer loop over \<open>distribution_data.items()\<close>. Its state is the slice list, the
  id counter and \<open>slice_factor\<close> itself, which the loop body overwrites with 1 when
  it is not positive.
\<close>

fun slice_loop :: "DistributionData \<Rightarrow> Slice list \<Rightarrow> int \<Rightarrow> int \<Rightarrow> Slice list" where
  "slice_loop [] slices slice_id_counter slice_factor = slices"
| "slice_loop ((req_type_id, total_rate) # rest) slices slice_id_counter slice_factor =
     (if total_rate \<le> 0 then slice_loop rest slices slice_id_counter slice_factor
      else
        let slice_factor = (if slice_factor \<le> 0 then 1 else slice_factor);
            rate_portion = total_rate / real_of_int slice_factor
        in if rate_portion < 1 / 1000000 then
             (if total_rate > 1 / 1000000000 then
                slice_loop rest
                  (slices @ new_slices slice_id_counter req_type_id total_rate 1)
                  (slice_id_counter + 1) slice_factor
              else slice_loop rest slices slice_id_counter slice_factor)
           else
             slice_loop rest
               (slices @ new_slices slice_id_counter req_type_id rate_portion slice_factor)
               (slice_id_counter + slice_factor) slice_factor)"

definition create_slices :: "DistributionData \<Rightarrow> int \<Rightarrow> Slice list" where
  "create_slices distribution_data slice_factor = slice_loop distribution_data [] 0 slice_factor"

subsection \<open>The slicer as the specification words it\<close>

text \<open>
  What one demand entry contributes, following the specification: with \<open>k\<close> the
  clamped slice factor, \<open>k\<close> equal portions, or one slice of the whole rate when the
  portion would fall below \<open>1e-6\<close>, or nothing for a rate of at most \<open>1e-9\<close>.
\<close>

definition spec_entry_portions :: "int \<Rightarrow> string \<times> real \<Rightarrow> (string \<times> real) list" where
  "spec_entry_portions k e =
     (case e of (reqId, totalRate) \<Rightarrow>
        if totalRate > 0 then
          (if totalRate / real_of_int k \<ge> 1 / 1000000
             then replicate (nat k) (reqId, totalRate / real_of_int k)
           else if totalRate > 1 / 1000000000 then [(reqId, totalRate)]
           else [])
        else [])"

definition spec_slicer :: "DistributionData \<Rightarrow> int \<Rightarrow> (string \<times> real) list" where
  "spec_slicer D sliceFactor = concat (map (spec_entry_portions (max sliceFactor 1)) D)"

section \<open>Step 2: the load matrix\<close>

text \<open>A load is a float; \<open>Infty\<close> stands for \<open>float('inf')\<close>.\<close>

datatype load = Fin real | Infty

type_synonym key = "int \<times> string"

type_synonym LoadMatrix = "key \<rightharpoonup> load"

text \<open>The body of the two nested loops: the load of one slice on one worker type.\<close>

definition slice_worker_load :: "ProfileData \<Rightarrow> Slice \<Rightarrow> WorkerUnit \<Rightarrow> load" where
  "slice_worker_load profile_data s w =
     (case profile_data (w_id w, request_type_id s) of
        None \<Rightarrow> Infty
      | Some max_tput \<Rightarrow> if max_tput > 0 then Fin (rate_portion s / max_tput) else Infty)"

fun load_row :: "ProfileData \<Rightarrow> Slice \<Rightarrow> WorkerUnit list \<Rightarrow> LoadMatrix \<Rightarrow> LoadMatrix" where
  "load_row profile_data s [] load_matrix = load_matrix"
| "load_row profile_data s (w # ws) load_matrix =
     load_row profile_data s ws
       (load_matrix((s_id s, w_id w) \<mapsto> slice_worker_load profile_data s w))"

fun calc_load_matrix ::
  "ProfileData \<Rightarrow> Slice list \<Rightarrow> WorkerUnit list \<Rightarrow> LoadMatrix \<Rightarrow> LoadMatrix" where
  "calc_load_matrix profile_data [] worker_units load_matrix = load_matrix"
| "calc_load_matrix profile_data (s # ss) worker_units load_matrix =
     calc_load_matrix profile_data ss worker_units
       (load_row profile_data s worker_units load_matrix)"

text \<open>\<open>load_matrix.get(key, float('inf'))\<close>\<close>

definition load_get :: "LoadMatrix \<Rightarrow> key \<Rightarrow> load" where
  "load_get load_matrix k = (case load_matrix k of None \<Rightarrow> Infty | Some l \<Rightarrow> l)"

section \<open>Steps 3 to 6: the model handed to the solver\<close>

text \<open>The result statuses of \<open>pywraplp.Solver\<close>.\<close>

datatype status =
  OPTIMAL | FEASIBLE | INFEASIBLE | UNBOUNDED | ABNORMAL | MODEL_INVALID | NOT_SOLVED

text \<open>
  The messages printed by the function that tell which path was taken (progress
  messages are left out): the early return without slices, the missing backend, the
  warning for a slice that no worker can take, the error when no slice can be assigned,
  the call of \<open>solver.Solve()\<close>, and the two outcomes.
\<close>

datatype message =
    NoSlices
  | SolverMissing
  | WarnUnassignable int string
  | ErrNoSlicesAssignable
  | SolvingILP
  | OptimalFound
  | NotOptimal status

text \<open>
  The dict \<open>A\<close> is only asked for membership and read at keys it holds: it is modelled by
  the list of its keys, in the order the variables are created. The inner loop returns the
  keys and the flag \<open>slice_can_be_assigned\<close>.
\<close>

fun declare_A_row :: "LoadMatrix \<Rightarrow> Slice \<Rightarrow> WorkerUnit list \<Rightarrow> key list \<Rightarrow> bool \<Rightarrow> key list \<times> bool" where
  "declare_A_row load_matrix s [] A slice_can_be_assigned = (A, slice_can_be_assigned)"
| "declare_A_row load_matrix s (w # ws) A slice_can_be_assigned =
     (if load_get load_matrix (s_id s, w_id w) \<noteq> Infty
      then declare_A_row load_matrix s ws (A @ [(s_id s, w_id w)]) True
      else declare_A_row load_matrix s ws A slice_can_be_assigned)"

fun declare_A ::
  "LoadMatrix \<Rightarrow> Slice list \<Rightarrow> WorkerUnit list \<Rightarrow> key list \<Rightarrow> bool \<Rightarrow> message list
     \<Rightarrow> key list \<times> bool \<times> message list" where
  "declare_A load_matrix [] worker_units A assignable_slices_exist printed =
     (A, assignable_slices_exist, printed)"
| "declare_A load_matrix (s # ss) worker_units A assignable_slices_exist printed =
     (case declare_A_row load_matrix s worker_units A False of
        (A', slice_can_be_assigned) \<Rightarrow>
          declare_A load_matrix ss worker_units A'
            (assignable_slices_exist \<or> slice_can_be_assigned)
            (if slice_can_be_assigned then printed
             else printed @ [WarnUnassignable (s_id s) (request_type_id s)]))"

text \<open>
  Constraint 1, named \<open>Assign_<slice id>\<close>: the listed variables sum to 1. A slice
  without variables gets no constraint.
\<close>

fun assignment_constraints :: "key list \<Rightarrow> Slice list \<Rightarrow> WorkerUnit list \<Rightarrow> (int \<times> key list) list" where
  "assignment_constraints A [] worker_units = []"
| "assignment_constraints A (s # ss) worker_units =
     (let assigned_workers = [(s_id s, w_id w). w \<leftarrow> worker_units, (s_id s, w_id w) \<in> set A]
      in (if assigned_workers \<noteq> [] then [(s_id s, assigned_workers)] else [])
         @ assignment_constraints A ss worker_units)"

text \<open>
  Constraint 2, named \<open>Cap_<worker id>\<close>: the sum of variable times load is at most
  \<open>B[w.id]\<close>. The coefficient is \<open>load_matrix[(s.id, w.id)]\<close>; the key is
  present whenever the variable exists, so the read cannot fail.
\<close>

fun capacity_constraints ::
  "key list \<Rightarrow> LoadMatrix \<Rightarrow> Slice list \<Rightarrow> WorkerUnit list \<Rightarrow> (string \<times> (key \<times> load) list) list" where
  "capacity_constraints A load_matrix slices [] = []"
| "capacity_constraints A load_matrix slices (w # ws) =
     (let total_load_on_worker =
            [((s_id s, w_id w), load_get load_matrix (s_id s, w_id w)).
               s \<leftarrow> slices, (s_id s, w_id w) \<in> set A]
      in (if total_load_on_worker \<noteq> [] then [(w_id w, total_load_on_worker)] else [])
         @ capacity_constraints A load_matrix slices ws)"

text \<open>Constraint 3, named \<open>Limit_<worker id>\<close>: \<open>B[w.id] <= w.max_limit\<close>.\<close>

fun limit_constraints :: "WorkerUnit list \<Rightarrow> (string \<times> int) list" where
  "limit_constraints [] = []"
| "limit_constraints (w # ws) =
     (case max_limit w of
        Some l \<Rightarrow> (if l \<ge> 0 then [(w_id w, l)] else []) @ limit_constraints ws
      | None \<Rightarrow> limit_constraints ws)"

text \<open>
  The model: the integer variables \<open>B\<close> (lower bound 0, no upper bound) by worker id,
  the Boolean variables \<open>A\<close> by key, the three families of constraints, and the calls
  \<open>SetCoefficient(B[w.id], w.cost)\<close> of the objective, which is minimised.
\<close>

record ilp_model =
  B_vars :: "string list"
  A_vars :: "key list"
  assign_cons :: "(int \<times> key list) list"
  capacity_cons :: "(string \<times> (key \<times> load) list) list"
  limit_cons :: "(string \<times> int) list"
  objective :: "(string \<times> real) list"

definition build_model :: "key list \<Rightarrow> LoadMatrix \<Rightarrow> Slice list \<Rightarrow> WorkerUnit list \<Rightarrow> ilp_model" where
  "build_model A load_matrix slices worker_units =
     \<lparr>B_vars = map w_id worker_units,
      A_vars = A,
      assign_cons = assignment_constraints A slices worker_units,
      capacity_cons = capacity_constraints A load_matrix slices worker_units,
      limit_cons = limit_constraints worker_units,
      objective = map (\<lambda>w. (w_id w, cost w)) worker_units\<rparr>"

text \<open>
  The backend is not part of the repository. What \<open>solver.Solve()\<close> and the
  \<open>solution_value()\<close> calls give back is a parameter: a status and a value for every
  variable. \<open>CreateSolver\<close> returning nothing is the backend \<open>None\<close>.
\<close>

record solution =
  sol_status :: status
  B_value :: "string \<Rightarrow> real"
  A_value :: "key \<Rightarrow> real"

type_synonym backend = "ilp_model \<Rightarrow> solution"

section \<open>Step 8: reading the plan off the solution\<close>

fun extract_counts :: "(string \<Rightarrow> real) \<Rightarrow> WorkerUnit list \<Rightarrow> (string \<rightharpoonup> int) \<Rightarrow> (string \<rightharpoonup> int)" where
  "extract_counts Bv [] optimal_counts = optimal_counts"
| "extract_counts Bv (w # ws) optimal_counts =
     extract_counts Bv ws (optimal_counts(w_id w \<mapsto> \<lceil>Bv (w_id w) - 1 / 1000000\<rceil>))"

text \<open>The inner loop stops at the first worker whose variable exists and exceeds 0.5.\<close>

definition chosen_worker :: "key list \<Rightarrow> (key \<Rightarrow> real) \<Rightarrow> Slice \<Rightarrow> WorkerUnit list \<Rightarrow> WorkerUnit option" where
  "chosen_worker A Av s worker_units =
     find (\<lambda>w. (s_id s, w_id w) \<in> set A \<and> Av (s_id s, w_id w) > 1 / 2) worker_units"

fun extract_assignments ::
  "key list \<Rightarrow> (key \<Rightarrow> real) \<Rightarrow> Slice list \<Rightarrow> WorkerUnit list \<Rightarrow> (int \<rightharpoonup> string) \<Rightarrow> (int \<rightharpoonup> string)" where
  "extract_assignments A Av [] worker_units slice_assignments = slice_assignments"
| "extract_assignments A Av (s # ss) worker_units slice_assignments =
     (case chosen_worker A Av s worker_units of
        None \<Rightarrow> extract_assignments A Av ss worker_units slice_assignments
      | Some w \<Rightarrow>
          extract_assignments A Av ss worker_units (slice_assignments(s_id s \<mapsto> w_id w)))"

section \<open>solve\_provisioning\_ilp\<close>

text \<open>\<open>{w.id: 0 for w in worker_units}\<close>\<close>

fun zero_counts :: "WorkerUnit list \<Rightarrow> (string \<rightharpoonup> int) \<Rightarrow> (string \<rightharpoonup> int)" where
  "zero_counts [] counts = counts"
| "zero_counts (w # ws) counts = zero_counts ws (counts(w_id w \<mapsto> 0))"

type_synonym SolverResult = "(string \<rightharpoonup> int) option \<times> (int \<rightharpoonup> string) option \<times> Slice list"

text \<open>The variables and the model of a call, as steps 2 to 6 build them.\<close>

definition model_of :: "WorkerUnit list \<Rightarrow> ProfileData \<Rightarrow> Slice list \<Rightarrow> ilp_model" where
  "model_of worker_units profile_data slices =
     (let load_matrix = calc_load_matrix profile_data slices worker_units Map.empty
      in case declare_A load_matrix slices worker_units [] False [] of
           (A, assignable_slices_exist, printed) \<Rightarrow>
             build_model A load_matrix slices worker_units)"

text \<open>The function returns its triple; the messages it prints come with it.\<close>

definition solve_provisioning_ilp ::
  "backend option \<Rightarrow> WorkerUnit list \<Rightarrow> ProfileData \<Rightarrow> DistributionData \<Rightarrow> int
     \<Rightarrow> SolverResult \<times> message list" where
  "solve_provisioning_ilp solver worker_units profile_data distribution_data slice_factor =
     (let slices = create_slices distribution_data slice_factor;
          num_slices = length slices
      in if num_slices = 0 then
           ((Some (zero_counts worker_units Map.empty), Some Map.empty, slices), [NoSlices])
         else
           let load_matrix = calc_load_matrix profile_data slices worker_units Map.empty
           in case solver of
                None \<Rightarrow> ((None, None, slices), [SolverMissing])
              | Some solve \<Rightarrow>
                  (case declare_A load_matrix slices worker_units [] False [] of
                     (A, assignable_slices_exist, printed) \<Rightarrow>
                       let printed = (if \<not> assignable_slices_exist \<and> num_slices > 0
                                      then printed @ [ErrNoSlicesAssignable] else printed);
                           sol = solve (build_model A load_matrix slices worker_units)
                       in if sol_status sol = OPTIMAL then
                            ((Some (extract_counts (B_value sol) worker_units Map.empty),
                              Some (extract_assignments A (A_value sol) slices worker_units Map.empty),
                              slices),
                             printed @ [SolvingILP, OptimalFound])
                          else
                            ((None, None, slices),
                             printed @ [SolvingILP, NotOptimal (sol_status sol)])))"

section \<open>The bucket function of process\_dataset.py\<close>

text \<open>The decimal digits of an int, as an f-string prints it.\<close>

definition digit_char :: "nat \<Rightarrow> char" where
  "digit_char d = ''0123456789'' ! d"

fun str_nat :: "nat \<Rightarrow> string" where
  "str_nat n = (if n < 10 then [digit_char n] else str_nat (n div 10) @ [digit_char (n mod 10)])"

definition str_int :: "int \<Rightarrow> string" where
  "str_int i = (if i < 0 then CHR ''-'' # str_nat (nat (- i)) else str_nat (nat i))"

declare str_nat.simps [simp del]

text \<open>
  \<open>math.log2\<close> of an int first converts the int to a double and then calls the C
  library's \<open>log2\<close> on that double. An int below \<open>2^53\<close> is a double already; a
  larger one is rounded to 53 significant bits, to the nearest double with ties to even.
  (From \<open>2^1024\<close> on the conversion overflows and \<open>math.log2\<close> takes another route,
  which is not modelled: no statement below is about such an int.)
\<close>

definition to_double :: "int \<Rightarrow> real" where
  "to_double n =
     (if n < 2 ^ 53 then real_of_int n
      else let q = 2 ^ nat (bitlen n - 53);
               m = n div q;
               r = n mod q;
               m' = (if q < 2 * r \<or> (2 * r = q \<and> odd m) then m + 1 else m)
           in real_of_int (m' * q))"

text \<open>
  The function \<open>_get_power_of_two_bucket\<close> (the name loses its underscore here). The C
  library is not part of the repository: its \<open>log2\<close> on doubles is the parameter
  \<open>log2\<close>. \<open>math.floor\<close> gives an int, and \<open>2**k\<close> is an int as long as \<open>k\<close> is
  not negative, which holds for any \<open>log2\<close> that maps 2 and more to 1 and more.
\<close>

definition get_power_of_two_bucket :: "(real \<Rightarrow> real) \<Rightarrow> int \<Rightarrow> string" where
  "get_power_of_two_bucket log2 n =
     (if n \<le> 1 then ''0-1''
      else let k = \<lfloor>log2 (to_double n)\<rfloor>;
               lower_bound = (2::int) ^ nat k;
               upper_bound = (2::int) ^ nat (k + 1) - 1
           in str_int lower_bound @ ''-'' @ str_int upper_bound)"

section \<open>Definitions used to state the properties\<close>

text \<open>The request type and the portion of a slice, without its id.\<close>

definition slice_view :: "Slice \<Rightarrow> string \<times> real" where
  "slice_view s = (request_type_id s, rate_portion s)"

text \<open>
  The load as the specification words it: the portion over the profiled throughput when
  the profile has the pair with a positive value, infinite otherwise.
\<close>

definition spec_load :: "ProfileData \<Rightarrow> string \<Rightarrow> Slice \<Rightarrow> load" where
  "spec_load P wid s =
     (if (wid, request_type_id s) \<in> dom P \<and> the (P (wid, request_type_id s)) > 0
      then Fin (rate_portion s / the (P (wid, request_type_id s))) else Infty)"

text \<open>
  The bucket as the specification words it, with the logarithm of the real numbers.
\<close>

definition spec_bucket :: "int \<Rightarrow> string" where
  "spec_bucket n =
     (if n \<le> 1 then ''0-1''
      else str_int (2 ^ nat \<lfloor>log 2 (real_of_int n)\<rfloor>) @ ''-''
           @ str_int (2 ^ (nat \<lfloor>log 2 (real_of_int n)\<rfloor> + 1) - 1))"

text \<open>What the function has printed when it reaches \<open>solver.Solve()\<close>.\<close>

definition printed_at_build :: "WorkerUnit list \<Rightarrow> ProfileData \<Rightarrow> Slice list \<Rightarrow> message list" where
  "printed_at_build worker_units profile_data slices =
     (let load_matrix = calc_load_matrix profile_data slices worker_units Map.empty
      in case declare_A load_matrix slices worker_units [] False [] of
           (A, assignable_slices_exist, printed) \<Rightarrow>
             if \<not> assignable_slices_exist \<and> length slices > 0
             then printed @ [ErrNoSlicesAssignable] else printed)"

text \<open>
  What it means for a solution to satisfy the model and to be optimal for it: the
  variables \<open>B\<close> are integers from 0 on, the variables \<open>A\<close> are 0 or 1, and the three
  families of constraints hold. A capacity constraint with an infinite coefficient is never
  satisfied. The objective sums, over the worker ids, the last coefficient set for the id
  times the value of its variable.
\<close>

fun weighted_sum :: "(key \<Rightarrow> real) \<Rightarrow> (key \<times> load) list \<Rightarrow> real option" where
  "weighted_sum Av [] = Some 0"
| "weighted_sum Av ((k, Fin c) # ts) = map_option (\<lambda>x. Av k * c + x) (weighted_sum Av ts)"
| "weighted_sum Av ((k, Infty) # ts) = None"

definition satisfies :: "ilp_model \<Rightarrow> solution \<Rightarrow> bool" where
  "satisfies m sol \<longleftrightarrow>
     list_all (\<lambda>i. 0 \<le> B_value sol i \<and> B_value sol i = of_int \<lfloor>B_value sol i\<rfloor>) (B_vars m)
   \<and> list_all (\<lambda>k. A_value sol k = 0 \<or> A_value sol k = 1) (A_vars m)
   \<and> list_all (\<lambda>(i, ks). sum_list (map (A_value sol) ks) = 1) (assign_cons m)
   \<and> list_all (\<lambda>(x, ts). case weighted_sum (A_value sol) ts of
                            None \<Rightarrow> False | Some v \<Rightarrow> v \<le> B_value sol x) (capacity_cons m)
   \<and> list_all (\<lambda>(x, l). B_value sol x \<le> of_int l) (limit_cons m)"

definition objective_value :: "ilp_model \<Rightarrow> solution \<Rightarrow> real" where
  "objective_value m sol =
     (\<Sum>i \<leftarrow> remdups (map fst (objective m)).
        (case map_of (rev (objective m)) i of Some c \<Rightarrow> c * B_value sol i | None \<Rightarrow> 0))"

definition optimal :: "ilp_model \<Rightarrow> solution \<Rightarrow> bool" where
  "optimal m sol \<longleftrightarrow>
     satisfies m sol \<and> (\<forall>sol'. satisfies m sol' \<longrightarrow> objective_value m sol \<le> objective_value m sol')"

subsection \<open>Concrete inputs\<close>

text \<open>
  Scenario S1 of the specification: one worker type \<open>A\<close> of cost 1 without limit, one
  request type \<open>R1\<close> served at 5 requests per second, and backends that answer a fixed
  status and fixed values.
\<close>

definition worker_A :: WorkerUnit where
  "worker_A = \<lparr>w_id = ''A'', accelerator_type = ''L4'', accelerator_count = 1,
               model_server_type = ''TGI'', cost = 1, max_limit = None\<rparr>"

definition profile_S1 :: ProfileData where
  "profile_S1 = [(''A'', ''R1'') \<mapsto> 5]"

definition backend_S1 :: backend where
  "backend_S1 m = \<lparr>sol_status = OPTIMAL, B_value = (\<lambda>i. 2), A_value = (\<lambda>k. 1)\<rparr>"

definition backend_infeasible :: backend where
  "backend_infeasible m = \<lparr>sol_status = INFEASIBLE, B_value = (\<lambda>i. 0), A_value = (\<lambda>k. 0)\<rparr>"

text \<open>
  A second worker type \<open>H\<close> whose profiled throughput for \<open>R1\<close> is 0.
\<close>

definition worker_H :: WorkerUnit where
  "worker_H = \<lparr>w_id = ''H'', accelerator_type = ''H100'', accelerator_count = 1,
               model_server_type = ''VLLM'', cost = 8, max_limit = None\<rparr>"

definition profile_AH :: ProfileData where
  "profile_AH = [(''A'', ''R1'') \<mapsto> 5, (''H'', ''R1'') \<mapsto> 0]"

text \<open>A backend that reports \<open>OPTIMAL\<close> with every variable \<open>A\<close> at one half.\<close>

definition backend_half :: backend where
  "backend_half m = \<lparr>sol_status = OPTIMAL, B_value = (\<lambda>i. 1), A_value = (\<lambda>k. 1 / 2)\<rparr>"

text \<open>A backend that reports \<open>OPTIMAL\<close> with every variable at 0.\<close>

definition backend_zero :: backend where
  "backend_zero m = \<lparr>sol_status = OPTIMAL, B_value = (\<lambda>i. 0), A_value = (\<lambda>k. 0)\<rparr>"

text \<open>A worker type with a negative cost.\<close>

definition worker_neg :: WorkerUnit where
  "worker_neg = \<lparr>w_id = ''A'', accelerator_type = ''L4'', accelerator_count = 1,
                 model_server_type = ''TGI'', cost = - 1, max_limit = None\<rparr>"

section \<open>The slicer\<close>

lemma upto_as_upt: "[0 .. int n - 1] = map int [0..<n]"
proof (induction n)
  case 0
  show ?case by simp
next
  case (Suc n)
  have "[0 .. int (Suc n) - 1] = [0 .. int n - 1] @ [int n]"
    using upto_rec2[of 0 "int n"] by simp
  with Suc show ?case by simp
qed

lemma new_slices_view:
  "0 \<le> k \<Longrightarrow> map slice_view (new_slices c r p k) = replicate (nat k) (r, p)"
  by (simp add: new_slices_def slice_view_def comp_def map_replicate_const)

lemma new_slices_length: "0 \<le> k \<Longrightarrow> length (new_slices c r p k) = nat k"
  by (simp add: new_slices_def)

lemma new_slices_ids:
  assumes "0 \<le> k"
  shows "map s_id (new_slices c r p k) = map (\<lambda>i. c + int i) [0..<nat k]"
proof -
  have "[0 .. k - 1] = map int [0..<nat k]"
    using upto_as_upt[of "nat k"] assms by simp
  then show ?thesis
    by (simp add: new_slices_def comp_def)
qed

lemma upt_int_append:
  "map int [0..<n + m] = map int [0..<n] @ map (\<lambda>i. int n + int i) [0..<m]"
proof (induction m)
  case 0
  show ?case by simp
next
  case (Suc m)
  have "map int [0..<n + Suc m] = map int [0..<n + m] @ [int (n + m)]"
    by simp
  also have "\<dots> = map int [0..<n] @ map (\<lambda>i. int n + int i) [0..<m] @ [int n + int m]"
    using Suc by simp
  also have "\<dots> = map int [0..<n] @ map (\<lambda>i. int n + int i) [0..<Suc m]"
    by simp
  finally show ?case .
qed

lemma ids_append:
  assumes "map s_id slices = map int [0..<length slices]" and "0 \<le> k"
  shows "map s_id (slices @ new_slices (int (length slices)) r p k)
           = map int [0..<length (slices @ new_slices (int (length slices)) r p k)]"
proof -
  have "length (slices @ new_slices (int (length slices)) r p k) = length slices + nat k"
    using assms(2) by (simp add: new_slices_length)
  moreover have "map s_id (slices @ new_slices (int (length slices)) r p k)
      = map int [0..<length slices] @ map (\<lambda>i. int (length slices) + int i) [0..<nat k]"
    using assms by (simp add: new_slices_ids)
  ultimately show ?thesis
    by (simp only: upt_int_append)
qed

lemma slice_loop_ids:
  "map s_id slices = map int [0..<length slices] \<Longrightarrow> c = int (length slices) \<Longrightarrow>
   map s_id (slice_loop D slices c sf) = map int [0..<length (slice_loop D slices c sf)]"
proof (induction D slices c sf rule: slice_loop.induct)
  case (1 slices c sf)
  then show ?case by simp
next
  case (2 r t rest slices c sf)
  show ?case
  proof (cases "t \<le> 0")
    case True
    with 2 show ?thesis by simp
  next
    case False
    define k where "k = (if sf \<le> 0 then 1 else sf)"
    have k: "0 \<le> k" "1 \<le> k" by (simp_all add: k_def)
    show ?thesis
    proof (cases "t / real_of_int k < 1 / 1000000")
      case small: True
      show ?thesis
      proof (cases "t > 1 / 1000000000")
        case True
        have "map s_id (slice_loop rest (slices @ new_slices c r t 1) (c + 1) k)
               = map int [0..<length (slice_loop rest (slices @ new_slices c r t 1) (c + 1) k)]"
          using "2.IH"(2)[OF False k_def refl small True] ids_append[OF "2.prems"(1), of 1 r t] "2.prems"(2)
          by (simp add: new_slices_length)
        with False small True show ?thesis by (simp add: k_def Let_def)
      next
        case F2: False
        have "map s_id (slice_loop rest slices c k) = map int [0..<length (slice_loop rest slices c k)]"
          using "2.IH"(3)[OF False k_def refl small F2] "2.prems" by simp
        with False small F2 show ?thesis by (simp add: k_def Let_def)
      qed
    next
      case big: False
      have "map s_id (slice_loop rest (slices @ new_slices c r (t / real_of_int k) k) (c + k) k)
            = map int [0..<length (slice_loop rest (slices @ new_slices c r (t / real_of_int k) k) (c + k) k)]"
        using "2.IH"(4)[OF False k_def refl big] ids_append[OF "2.prems"(1) k(1), of r "t / real_of_int k"] "2.prems"(2) k
        by (simp add: new_slices_length)
      with False big show ?thesis by (simp add: k_def Let_def)
    qed
  qed
qed


lemma slice_loop_view:
  "map slice_view (slice_loop D slices c sf)
     = map slice_view slices @ concat (map (spec_entry_portions (max sf 1)) D)"
proof (induction D slices c sf rule: slice_loop.induct)
  case (1 slices c sf)
  then show ?case by simp
next
  case (2 r t rest slices c sf)
  show ?case
  proof (cases "t \<le> 0")
    case True
    with 2 show ?thesis by (simp add: spec_entry_portions_def)
  next
    case False
    define k where "k = (if sf \<le> 0 then 1 else sf)"
    have k: "1 \<le> k" "max sf 1 = k" "max k 1 = k" by (simp_all add: k_def)
    show ?thesis
    proof (cases "t / real_of_int k < 1 / 1000000")
      case small: True
      show ?thesis
      proof (cases "t > 1 / 1000000000")
        case True
        from "2.IH"(2)[OF False k_def refl small True] False small True k
        show ?thesis
          by (simp add: k_def[symmetric] Let_def spec_entry_portions_def new_slices_view)
      next
        case F2: False
        from "2.IH"(3)[OF False k_def refl small F2] False small F2 k
        show ?thesis
          by (simp add: k_def[symmetric] Let_def spec_entry_portions_def)
      qed
    next
      case big: False
      from "2.IH"(4)[OF False k_def refl big] False big k
      show ?thesis
        by (simp add: k_def[symmetric] Let_def spec_entry_portions_def new_slices_view)
    qed
  qed
qed

lemma create_slices_ids:
  "map s_id (create_slices D sf) = map int [0..<length (create_slices D sf)]"
  unfolding create_slices_def by (rule slice_loop_ids) simp_all

lemma create_slices_distinct: "distinct (map s_id (create_slices D sf))"
proof -
  have "distinct (map int [0..<length (create_slices D sf)])"
    by (simp add: distinct_map)
  then show ?thesis
    by (simp only: create_slices_ids[symmetric])
qed

text \<open>
  With a slice factor of at least 1 a rate of at most \<open>1e-9\<close> never reaches the branch
  of the equal portions: the three cases of the specification do not overlap.
\<close>

lemma tiny_rate_emits_nothing:
  assumes "1 \<le> k" and "t \<le> 1 / 1000000000"
  shows "spec_entry_portions k (r, t) = []"
proof -
  have "t / real_of_int k \<le> t" if "0 < t"
  proof -
    have "1 \<le> real_of_int k" using assms(1) by simp
    with that have "t \<le> t * real_of_int k" by simp
    with \<open>1 \<le> real_of_int k\<close> show ?thesis by (simp add: field_simps)
  qed
  with assms(2) have "\<not> 1 / 1000000 \<le> t / real_of_int k" if "0 < t"
    using that by fastforce
  with assms(2) show ?thesis
    by (auto simp: spec_entry_portions_def)
qed

text \<open>
  Claim C3. For every demand and every slice factor, the request types and portions of the
  emitted slices, in emission order, are those the specification's algorithm gives entry by
  entry with \<open>k = max sliceFactor 1\<close> (\<open>k\<close> equal portions when the portion is at least
  \<open>1e-6\<close>, one slice of the whole rate when it is smaller and the rate exceeds \<open>1e-9\<close>,
  nothing otherwise and nothing for a rate that is not positive), and the ids of the
  emitted slices are 0, 1, 2, ... in emission order.
\<close>

theorem slicer_follows_spec:
  "map slice_view (create_slices D sliceFactor) = spec_slicer D sliceFactor
   \<and> map s_id (create_slices D sliceFactor)
       = map int [0..<length (create_slices D sliceFactor)]"
  using slice_loop_view[of D "[]" 0 sliceFactor] create_slices_ids[of D sliceFactor]
  by (simp add: create_slices_def spec_slicer_def)

section \<open>The paths of solve\_provisioning\_ilp\<close>

lemma slice_loop_no_demand:
  "\<forall>(r, t) \<in> set D. t \<le> 0 \<Longrightarrow> slice_loop D slices c sf = slices"
  by (induction D slices c sf rule: slice_loop.induct) auto

lemma zero_counts_lookup:
  "zero_counts ws m x = (if x \<in> w_id ` set ws then Some 0 else m x)"
  by (induction ws arbitrary: m) auto

lemma extract_counts_lookup:
  "extract_counts Bv ws m x
     = (if x \<in> w_id ` set ws then Some \<lceil>Bv x - 1 / 1000000\<rceil> else m x)"
  by (induction ws arbitrary: m) auto

lemma solve_no_slices:
  "create_slices D sf = [] \<Longrightarrow>
   solve_provisioning_ilp solver ws P D sf
     = ((Some (zero_counts ws Map.empty), Some Map.empty, []), [NoSlices])"
  by (simp add: solve_provisioning_ilp_def)

lemma solve_missing_backend:
  "create_slices D sf \<noteq> [] \<Longrightarrow>
   solve_provisioning_ilp None ws P D sf = ((None, None, create_slices D sf), [SolverMissing])"
  by (simp add: solve_provisioning_ilp_def Let_def)

lemma solve_with_backend:
  assumes "create_slices D sf \<noteq> []"
  shows "solve_provisioning_ilp (Some bk) ws P D sf =
     (let slices = create_slices D sf;
          m = model_of ws P slices;
          sol = bk m
      in if sol_status sol = OPTIMAL then
           ((Some (extract_counts (B_value sol) ws Map.empty),
             Some (extract_assignments (A_vars m) (A_value sol) slices ws Map.empty),
             slices),
            printed_at_build ws P slices @ [SolvingILP, OptimalFound])
         else ((None, None, slices),
               printed_at_build ws P slices @ [SolvingILP, NotOptimal (sol_status sol)]))"
  using assms
  by (simp add: solve_provisioning_ilp_def model_of_def printed_at_build_def Let_def
        build_model_def split: prod.splits)


lemma slices_S1: "create_slices [(''R1'', 10)] 1 = [\<lparr>s_id = 0, request_type_id = ''R1'', rate_portion = 10\<rparr>]"
  by (simp add: create_slices_def new_slices_def)

text \<open>
  Claim C4. For every worker list, profile and backend (present or missing), when the
  demand is empty or every entry has a rate of at most 0, the function returns the counts
  that map every worker id to 0 and no other key, the empty assignments and the empty slice
  list, and the only message is that of the early return: the solver is not called.
\<close>

theorem empty_demand_zero_plan:
  assumes "\<forall>(r, t) \<in> set D. t \<le> 0"
  shows "solve_provisioning_ilp solver ws P D sf
           = ((Some (zero_counts ws Map.empty), Some Map.empty, []), [NoSlices])
         \<and> dom (zero_counts ws Map.empty) = w_id ` set ws
         \<and> ran (zero_counts ws Map.empty) \<subseteq> {0}"
proof -
  have "create_slices D sf = []"
    using assms by (simp add: create_slices_def slice_loop_no_demand)
  then have "solve_provisioning_ilp solver ws P D sf
           = ((Some (zero_counts ws Map.empty), Some Map.empty, []), [NoSlices])"
    by (rule solve_no_slices)
  moreover have "dom (zero_counts ws Map.empty) = w_id ` set ws"
    by (auto simp: dom_def zero_counts_lookup)
  moreover have "ran (zero_counts ws Map.empty) \<subseteq> {0}"
    by (auto simp: ran_def zero_counts_lookup split: if_splits)
  ultimately show ?thesis by simp
qed

theorem empty_demand_zero_plan_witness:
  "solve_provisioning_ilp (Some backend_S1) [worker_A] profile_S1 [(''R1'', 0), (''R2'', 0)] 2
     = ((Some (zero_counts [worker_A] Map.empty), Some Map.empty, []), [NoSlices])
   \<and> solve_provisioning_ilp None [worker_A] profile_S1 [] 2
     = ((Some (zero_counts [worker_A] Map.empty), Some Map.empty, []), [NoSlices])
   \<and> dom (zero_counts [worker_A] Map.empty) = {''A''}"
  using empty_demand_zero_plan[of "[(''R1'', 0), (''R2'', 0)]" "Some backend_S1" "[worker_A]" profile_S1 2]
        empty_demand_zero_plan[of "[]" None "[worker_A]" profile_S1 2]
  by (simp add: worker_A_def)

text \<open>
  Claim C7. On every call that reaches \<open>solver.Solve()\<close>, the function returns a plan
  (counts and assignments, with the slices) exactly when the status is \<open>OPTIMAL\<close>; for
  any other status it returns \<open>(None, None, slices)\<close> with the slices already computed.
\<close>

theorem plan_iff_optimal:
  assumes "SolvingILP \<in> set (snd (solve_provisioning_ilp (Some bk) ws P D sf))"
  shows "((\<exists>counts assignments. fst (solve_provisioning_ilp (Some bk) ws P D sf)
              = (Some counts, Some assignments, create_slices D sf))
          \<longleftrightarrow> sol_status (bk (model_of ws P (create_slices D sf))) = OPTIMAL)
       \<and> (sol_status (bk (model_of ws P (create_slices D sf))) \<noteq> OPTIMAL
          \<longrightarrow> fst (solve_provisioning_ilp (Some bk) ws P D sf)
                = (None, None, create_slices D sf))"
proof -
  have ne: "create_slices D sf \<noteq> []"
  proof
    assume "create_slices D sf = []"
    from solve_no_slices[OF this] assms show False by simp
  qed
  show ?thesis
    by (simp add: solve_with_backend[OF ne] Let_def)
qed

theorem plan_iff_optimal_witness:
  "SolvingILP \<in> set (snd (solve_provisioning_ilp (Some backend_S1) [worker_A] profile_S1 [(''R1'', 10)] 1))
   \<and> sol_status (backend_S1 (model_of [worker_A] profile_S1 (create_slices [(''R1'', 10)] 1))) = OPTIMAL
   \<and> (\<exists>counts assignments.
        fst (solve_provisioning_ilp (Some backend_S1) [worker_A] profile_S1 [(''R1'', 10)] 1)
          = (Some counts, Some assignments, create_slices [(''R1'', 10)] 1))
   \<and> SolvingILP \<in> set (snd (solve_provisioning_ilp (Some backend_infeasible) [worker_A] profile_S1 [(''R1'', 10)] 1))
   \<and> fst (solve_provisioning_ilp (Some backend_infeasible) [worker_A] profile_S1 [(''R1'', 10)] 1)
          = (None, None, create_slices [(''R1'', 10)] 1)"
proof -
  have ne: "create_slices [(''R1'', 10)] 1 \<noteq> []"
    by (simp add: slices_S1)
  have a: "SolvingILP \<in> set (snd (solve_provisioning_ilp (Some backend_S1) [worker_A] profile_S1 [(''R1'', 10)] 1))"
    by (simp add: solve_with_backend[OF ne] Let_def backend_S1_def)
  have b: "SolvingILP \<in> set (snd (solve_provisioning_ilp (Some backend_infeasible) [worker_A] profile_S1 [(''R1'', 10)] 1))"
    by (simp add: solve_with_backend[OF ne] Let_def backend_infeasible_def)
  have c: "sol_status (backend_S1 m) = OPTIMAL" "sol_status (backend_infeasible m) \<noteq> OPTIMAL" for m
    by (simp_all add: backend_S1_def backend_infeasible_def)
  from plan_iff_optimal[OF a] plan_iff_optimal[OF b] a b c show ?thesis
    by simp
qed

text \<open>
  Claim C10. Whenever the function returns counts, on the early return as on the
  \<open>OPTIMAL\<close> path, the keys of the counts are exactly the ids of the given workers, and
  every count is an integer that is not negative, provided the backend's values of the
  variables \<open>B\<close> respect their lower bound 0.
\<close>

theorem counts_keys_and_values:
  assumes "fst (solve_provisioning_ilp solver ws P D sf) = (Some counts, assignments, slices)"
      and "\<forall>bk. solver = Some bk \<longrightarrow>
             (\<forall>w \<in> set ws. 0 \<le> B_value (bk (model_of ws P (create_slices D sf))) (w_id w))"
  shows "dom counts = w_id ` set ws \<and> (\<forall>v \<in> ran counts. 0 \<le> v)"
proof (cases "create_slices D sf = []")
  case True
  from solve_no_slices[OF True] assms(1) have "counts = zero_counts ws Map.empty"
    by simp
  then show ?thesis
    by (auto simp: dom_def ran_def zero_counts_lookup split: if_splits)
next
  case False
  show ?thesis
  proof (cases solver)
    case None
    with solve_missing_backend[OF False] assms(1) show ?thesis by simp
  next
    case (Some bk)
    define sol where "sol = bk (model_of ws P (create_slices D sf))"
    from assms(1) Some have opt: "sol_status sol = OPTIMAL"
      and c: "counts = extract_counts (B_value sol) ws Map.empty"
      by (auto simp: solve_with_backend[OF False] Let_def sol_def split: if_splits)
    have nonneg: "0 \<le> B_value sol (w_id w)" if "w \<in> set ws" for w
      using assms(2) Some that by (simp add: sol_def)
    have "0 \<le> \<lceil>B_value sol (w_id w) - 1 / 1000000\<rceil>" if "w \<in> set ws" for w
    proof -
      have "-1 < B_value sol (w_id w) - 1 / 1000000"
        using nonneg[OF that] by simp
      then show ?thesis by linarith
    qed
    then show ?thesis
      by (auto simp: c dom_def ran_def extract_counts_lookup split: if_splits)
  qed
qed

theorem counts_keys_and_values_witness:
  "fst (solve_provisioning_ilp (Some backend_S1) [worker_A] profile_S1 [(''R1'', 10)] 1)
     = (Some [''A'' \<mapsto> 2], Some [0 \<mapsto> ''A''],
        [\<lparr>s_id = 0, request_type_id = ''R1'', rate_portion = 10\<rparr>])
   \<and> dom [''A'' \<mapsto> 2::int] = w_id ` set [worker_A]
   \<and> (\<forall>v. v \<in> ran [''A'' \<mapsto> 2::int] \<longleftrightarrow> v = 2)"
proof -
  have ne: "create_slices [(''R1'', 10)] 1 \<noteq> []"
    by (simp add: slices_S1)
  have r: "fst (solve_provisioning_ilp (Some backend_S1) [worker_A] profile_S1 [(''R1'', 10)] 1)
     = (Some [''A'' \<mapsto> 2], Some [0 \<mapsto> ''A''],
        [\<lparr>s_id = 0, request_type_id = ''R1'', rate_portion = 10\<rparr>])"
    apply (simp add: solve_with_backend[OF ne] Let_def backend_S1_def slices_S1 model_of_def
       worker_A_def profile_S1_def load_get_def slice_worker_load_def build_model_def chosen_worker_def)
    done
  have b: "\<forall>bk. Some backend_S1 = Some bk \<longrightarrow>
             (\<forall>w \<in> set [worker_A]. 0 \<le> B_value (bk (model_of [worker_A] profile_S1 (create_slices [(''R1'', 10)] 1))) (w_id w))"
    by (simp add: backend_S1_def)
  from counts_keys_and_values[OF r b] r show ?thesis
    by (auto simp: ran_def)
qed

section \<open>The load matrix and the assignment variables\<close>

lemma slice_worker_load_spec: "slice_worker_load P s w = spec_load P (w_id w) s"
  by (auto simp: slice_worker_load_def spec_load_def dom_def split: option.splits)

lemma load_row_lookup:
  "load_row P s ws lm k =
     (if k \<in> (\<lambda>w. (s_id s, w_id w)) ` set ws then Some (spec_load P (snd k) s) else lm k)"
  by (induction ws arbitrary: lm) (auto simp: slice_worker_load_spec)

lemma calc_load_matrix_other:
  "fst k \<notin> s_id ` set ss \<Longrightarrow> calc_load_matrix P ss ws lm k = lm k"
  by (induction ss arbitrary: lm) (auto simp: load_row_lookup)

lemma calc_load_matrix_lookup:
  "distinct (map s_id ss) \<Longrightarrow> s \<in> set ss \<Longrightarrow> w \<in> set ws \<Longrightarrow>
   calc_load_matrix P ss ws lm (s_id s, w_id w) = Some (spec_load P (w_id w) s)"
proof (induction ss arbitrary: lm)
  case Nil
  then show ?case by simp
next
  case (Cons a ss)
  show ?case
  proof (cases "s \<in> set ss")
    case True
    with Cons show ?thesis by simp
  next
    case False
    with Cons.prems have [simp]: "s = a" and "s_id a \<notin> s_id ` set ss" by auto
    then have "calc_load_matrix P ss ws (load_row P a ws lm) (s_id a, w_id w)
                = load_row P a ws lm (s_id a, w_id w)"
      by (intro calc_load_matrix_other) simp
    with Cons.prems(3) show ?thesis
      by (simp add: load_row_lookup)
  qed
qed

lemma comprehension_filter:
  "concat (map (\<lambda>x. if Q x then [f x] else []) xs) = map f (filter Q xs)"
  by (induction xs) simp_all

lemma declare_A_row_result:
  "declare_A_row lm s ws A can =
     (A @ [(s_id s, w_id w). w \<leftarrow> ws, load_get lm (s_id s, w_id w) \<noteq> Infty],
      can \<or> (\<exists>w \<in> set ws. load_get lm (s_id s, w_id w) \<noteq> Infty))"
  by (induction ws arbitrary: A can) auto

lemma declare_A_keys:
  "set (fst (declare_A lm ss ws A ex pr)) =
     set A \<union> {(s_id s, w_id w) | s w. s \<in> set ss \<and> w \<in> set ws
                                     \<and> load_get lm (s_id s, w_id w) \<noteq> Infty}"
  by (induction ss arbitrary: A ex pr) (auto simp: declare_A_row_result)

lemma declare_A_exist:
  "fst (snd (declare_A lm ss ws A ex pr)) \<longleftrightarrow>
     ex \<or> (\<exists>s \<in> set ss. \<exists>w \<in> set ws. load_get lm (s_id s, w_id w) \<noteq> Infty)"
  by (induction ss arbitrary: A ex pr) (auto simp: declare_A_row_result)

lemma declare_A_printed:
  "set (snd (snd (declare_A lm ss ws A ex pr))) =
     set pr \<union> {WarnUnassignable (s_id s) (request_type_id s) | s.
                 s \<in> set ss \<and> (\<forall>w \<in> set ws. load_get lm (s_id s, w_id w) = Infty)}"
  by (induction ss arbitrary: A ex pr) (auto simp: declare_A_row_result)


lemma A_vars_model_of:
  "A_vars (model_of ws P ss)
     = fst (declare_A (calc_load_matrix P ss ws Map.empty) ss ws [] False [])"
  by (simp add: model_of_def Let_def build_model_def split: prod.splits)

lemma assign_cons_model_of:
  "assign_cons (model_of ws P ss) = assignment_constraints (A_vars (model_of ws P ss)) ss ws"
  by (simp add: model_of_def Let_def build_model_def split: prod.splits)

lemma capacity_cons_model_of:
  "capacity_cons (model_of ws P ss)
     = capacity_constraints (A_vars (model_of ws P ss)) (calc_load_matrix P ss ws Map.empty) ss ws"
  by (simp add: model_of_def Let_def build_model_def split: prod.splits)

lemma A_vars_iff:
  assumes "distinct (map s_id ss)"
  shows "k \<in> set (A_vars (model_of ws P ss)) \<longleftrightarrow>
           (\<exists>s \<in> set ss. \<exists>w \<in> set ws. k = (s_id s, w_id w) \<and> spec_load P (w_id w) s \<noteq> Infty)"
proof -
  have l: "load_get (calc_load_matrix P ss ws Map.empty) (s_id s, w_id w) = spec_load P (w_id w) s"
    if "s \<in> set ss" "w \<in> set ws" for s w
    using calc_load_matrix_lookup[OF assms that] by (simp add: load_get_def)
  have "k \<in> set (A_vars (model_of ws P ss)) \<longleftrightarrow>
          (\<exists>s w. k = (s_id s, w_id w) \<and> s \<in> set ss \<and> w \<in> set ws
             \<and> load_get (calc_load_matrix P ss ws Map.empty) (s_id s, w_id w) \<noteq> Infty)"
    unfolding A_vars_model_of declare_A_keys by simp
  also have "\<dots> \<longleftrightarrow> (\<exists>s w. k = (s_id s, w_id w) \<and> s \<in> set ss \<and> w \<in> set ws
             \<and> spec_load P (w_id w) s \<noteq> Infty)"
    using l by metis
  finally show ?thesis by blast
qed

lemma assignment_constraints_sound:
  "(i, ks) \<in> set (assignment_constraints A ss ws) \<Longrightarrow>
     ks \<noteq> [] \<and> set ks \<subseteq> set A \<and> (\<exists>s \<in> set ss. i = s_id s \<and> (\<forall>k \<in> set ks. fst k = s_id s))"
  by (induction ss) (auto simp: Let_def comprehension_filter split: if_splits)

lemma capacity_constraints_sound:
  "(x, ts) \<in> set (capacity_constraints A lm ss ws) \<Longrightarrow> (k, l) \<in> set ts \<Longrightarrow>
     k \<in> set A \<and> l = load_get lm k \<and> snd k = x"
  by (induction ws) (auto simp: Let_def comprehension_filter split: if_splits)

lemma slices_two:
  "create_slices [(''R1'', 10)] 2 =
     [\<lparr>s_id = 0, request_type_id = ''R1'', rate_portion = 5\<rparr>,
      \<lparr>s_id = 1, request_type_id = ''R1'', rate_portion = 5\<rparr>]"
  by (simp add: create_slices_def new_slices_def upto.simps)

text \<open>
  Claim C5. For every slice \<open>s\<close> the slicer emits and every worker \<open>w\<close>, the load
  matrix holds at \<open>(s.id, w.id)\<close> the portion of \<open>s\<close> over the profiled throughput
  when the profile has the pair \<open>(w.id, s.request_type_id)\<close> with a positive value, and
  infinity otherwise; the variable \<open>A[s.id, w.id]\<close> exists exactly when that load is
  finite; every variable \<open>A\<close> comes from such a pair; and the assignment and capacity
  constraints mention only existing variables, with finite coefficients.
\<close>

theorem load_matrix_and_variables:
  fixes D sf ws P
  defines "slices \<equiv> create_slices D sf"
  defines "load_matrix \<equiv> calc_load_matrix P slices ws Map.empty"
  defines "m \<equiv> model_of ws P slices"
  shows "(\<forall>s \<in> set slices. \<forall>w \<in> set ws.
            load_matrix (s_id s, w_id w) = Some (spec_load P (w_id w) s)
          \<and> ((s_id s, w_id w) \<in> set (A_vars m) \<longleftrightarrow> spec_load P (w_id w) s \<noteq> Infty))
       \<and> (\<forall>k \<in> set (A_vars m). \<exists>s \<in> set slices. \<exists>w \<in> set ws.
            k = (s_id s, w_id w) \<and> spec_load P (w_id w) s \<noteq> Infty)
       \<and> (\<forall>(i, ks) \<in> set (assign_cons m). set ks \<subseteq> set (A_vars m))
       \<and> (\<forall>(x, ts) \<in> set (capacity_cons m). \<forall>(k, l) \<in> set ts.
            k \<in> set (A_vars m) \<and> l \<noteq> Infty)"
proof -
  have d: "distinct (map s_id slices)"
    unfolding slices_def by (rule create_slices_distinct)
  have lm: "load_matrix (s_id s, w_id w) = Some (spec_load P (w_id w) s)"
    if "s \<in> set slices" "w \<in> set ws" for s w
    unfolding load_matrix_def by (rule calc_load_matrix_lookup[OF d that])
  have fin: "load_get load_matrix k \<noteq> Infty" if "k \<in> set (A_vars m)" for k
    using that lm A_vars_iff[OF d, of k ws P] unfolding m_def by (auto simp: load_get_def)
  have one: "\<forall>s \<in> set slices. \<forall>w \<in> set ws.
            load_matrix (s_id s, w_id w) = Some (spec_load P (w_id w) s)
          \<and> ((s_id s, w_id w) \<in> set (A_vars m) \<longleftrightarrow> spec_load P (w_id w) s \<noteq> Infty)"
  proof (intro ballI conjI)
    fix s w assume sw: "s \<in> set slices" "w \<in> set ws"
    show "load_matrix (s_id s, w_id w) = Some (spec_load P (w_id w) s)"
      by (rule lm[OF sw])
    have "(s_id s, w_id w) \<in> set (A_vars m) \<longleftrightarrow> load_get load_matrix (s_id s, w_id w) \<noteq> Infty"
      using sw unfolding m_def A_vars_model_of load_matrix_def declare_A_keys by auto
    then show "(s_id s, w_id w) \<in> set (A_vars m) \<longleftrightarrow> spec_load P (w_id w) s \<noteq> Infty"
      by (simp add: load_get_def lm[OF sw])
  qed
  have two: "\<forall>k \<in> set (A_vars m). \<exists>s \<in> set slices. \<exists>w \<in> set ws.
            k = (s_id s, w_id w) \<and> spec_load P (w_id w) s \<noteq> Infty"
    using A_vars_iff[OF d, of _ ws P] unfolding m_def by blast
  have three: "\<forall>(i, ks) \<in> set (assign_cons m). set ks \<subseteq> set (A_vars m)"
    unfolding m_def assign_cons_model_of
    using assignment_constraints_sound by fastforce
  have four: "\<forall>(x, ts) \<in> set (capacity_cons m). \<forall>(k, l) \<in> set ts.
            k \<in> set (A_vars m) \<and> l \<noteq> Infty"
  proof (clarify, rule conjI)
    fix x ts a b l assume h: "(x, ts) \<in> set (capacity_cons m)" "((a, b), l) \<in> set ts"
    from h have *: "(a, b) \<in> set (A_vars m) \<and> l = load_get load_matrix (a, b)"
      unfolding m_def capacity_cons_model_of load_matrix_def
      using capacity_constraints_sound by blast
    then show "(a, b) \<in> set (A_vars m)" by simp
    from * fin show "l \<noteq> Infty" by simp
  qed
  from one two three four show ?thesis by blast
qed

theorem load_matrix_and_variables_witness:
  "calc_load_matrix profile_AH (create_slices [(''R1'', 10)] 2) [worker_A, worker_H] Map.empty (0, ''A'')
     = Some (Fin 1)
   \<and> (0, ''A'') \<in> set (A_vars (model_of [worker_A, worker_H] profile_AH (create_slices [(''R1'', 10)] 2)))
   \<and> calc_load_matrix profile_AH (create_slices [(''R1'', 10)] 2) [worker_A, worker_H] Map.empty (1, ''H'')
     = Some Infty
   \<and> (1, ''H'') \<notin> set (A_vars (model_of [worker_A, worker_H] profile_AH (create_slices [(''R1'', 10)] 2)))
   \<and> A_vars (model_of [worker_A, worker_H] profile_AH (create_slices [(''R1'', 10)] 2))
       = [(0, ''A''), (1, ''A'')]"
proof -
  let ?s0 = "\<lparr>s_id = 0, request_type_id = ''R1'', rate_portion = 5\<rparr>"
  let ?s1 = "\<lparr>s_id = 1, request_type_id = ''R1'', rate_portion = 5\<rparr>"
  note t = load_matrix_and_variables[of "[(''R1'', 10)]" 2 "[worker_A, worker_H]" profile_AH]
  have s0: "?s0 \<in> set (create_slices [(''R1'', 10)] 2)"
    and s1: "?s1 \<in> set (create_slices [(''R1'', 10)] 2)"
    by (simp_all add: slices_two)
  have wa: "worker_A \<in> set [worker_A, worker_H]" and wh: "worker_H \<in> set [worker_A, worker_H]"
    by simp_all
  have la: "spec_load profile_AH (w_id worker_A) ?s0 = Fin 1"
    and lh: "spec_load profile_AH (w_id worker_H) ?s1 = Infty"
    by (simp_all add: spec_load_def profile_AH_def worker_A_def worker_H_def)
  from t have a: "\<forall>s \<in> set (create_slices [(''R1'', 10)] 2). \<forall>w \<in> set [worker_A, worker_H].
      calc_load_matrix profile_AH (create_slices [(''R1'', 10)] 2) [worker_A, worker_H] Map.empty (s_id s, w_id w)
        = Some (spec_load profile_AH (w_id w) s)
      \<and> ((s_id s, w_id w) \<in> set (A_vars (model_of [worker_A, worker_H] profile_AH (create_slices [(''R1'', 10)] 2)))
          \<longleftrightarrow> spec_load profile_AH (w_id w) s \<noteq> Infty)"
    by (rule conjunct1)
  from bspec[OF bspec[OF a s0] wa] la bspec[OF bspec[OF a s1] wh] lh
  have "calc_load_matrix profile_AH (create_slices [(''R1'', 10)] 2) [worker_A, worker_H] Map.empty (0, ''A'')
     = Some (Fin 1)
   \<and> (0, ''A'') \<in> set (A_vars (model_of [worker_A, worker_H] profile_AH (create_slices [(''R1'', 10)] 2)))
   \<and> calc_load_matrix profile_AH (create_slices [(''R1'', 10)] 2) [worker_A, worker_H] Map.empty (1, ''H'')
     = Some Infty
   \<and> (1, ''H'') \<notin> set (A_vars (model_of [worker_A, worker_H] profile_AH (create_slices [(''R1'', 10)] 2)))"
    by (simp add: worker_A_def worker_H_def)
  moreover have "A_vars (model_of [worker_A, worker_H] profile_AH (create_slices [(''R1'', 10)] 2))
       = [(0, ''A''), (1, ''A'')]"
    by (simp add: slices_two model_of_def build_model_def load_get_def slice_worker_load_def
          profile_AH_def worker_A_def worker_H_def)
  ultimately show ?thesis by simp
qed

section \<open>Reading the plan off the solution\<close>

lemma extract_assignments_other:
  "i \<notin> s_id ` set ss \<Longrightarrow> extract_assignments A Av ss ws sa i = sa i"
  by (induction ss arbitrary: sa) (auto split: option.splits)

lemma extract_assignments_lookup:
  "distinct (map s_id ss) \<Longrightarrow> s \<in> set ss \<Longrightarrow>
   extract_assignments A Av ss ws sa (s_id s)
     = (case chosen_worker A Av s ws of None \<Rightarrow> sa (s_id s) | Some w \<Rightarrow> Some (w_id w))"
proof (induction ss arbitrary: sa)
  case Nil
  then show ?case by simp
next
  case (Cons a ss)
  show ?case
  proof (cases "s \<in> set ss")
    case True
    from Cons.prems(1) have "s_id a \<notin> s_id ` set ss" by simp
    with True have "s_id s \<noteq> s_id a" by (metis imageI)
    with Cons True show ?thesis
      by (auto split: option.splits)
  next
    case False
    with Cons.prems have "s = a" and "s_id a \<notin> s_id ` set ss" by auto
    then show ?thesis
      by (simp add: extract_assignments_other split: option.splits)
  qed
qed

text \<open>
  When the values satisfy the model, two variables of one slice cannot both exceed 0.5:
  the worker the loop stops at is then the only one, up to its id.
\<close>

lemma sum_list_two_members:
  fixes f :: "'a \<Rightarrow> real"
  assumes "\<forall>x \<in> set xs. 0 \<le> f x" and "a \<in> set xs" and "b \<in> set xs" and "a \<noteq> b"
  shows "f a + f b \<le> sum_list (map f xs)"
  using assms
proof (induction xs)
  case Nil
  then show ?case by simp
next
  case (Cons x xs)
  have nn: "0 \<le> sum_list (map f xs)"
    using Cons.prems(1) by (intro sum_list_nonneg) auto
  have one: "f c \<le> sum_list (map f xs)" if "c \<in> set xs" for c
    using that Cons.prems(1) member_le_sum_list[of "f c" "map f xs"] by auto
  consider "a = x" "b \<in> set xs" | "b = x" "a \<in> set xs" | "a \<in> set xs" "b \<in> set xs"
    using Cons.prems by auto
  then show ?case
  proof cases
    case 1
    with one[of b] show ?thesis by simp
  next
    case 2
    with one[of a] show ?thesis by simp
  next
    case 3
    with Cons have "f a + f b \<le> sum_list (map f xs)" by simp
    moreover have "0 \<le> f x" using Cons.prems(1) by simp
    ultimately show ?thesis by simp
  qed
qed

lemma assignment_constraints_complete:
  assumes "s \<in> set ss" and "w \<in> set ws" and "(s_id s, w_id w) \<in> set A"
  shows "(s_id s, [(s_id s, w_id x). x \<leftarrow> ws, (s_id s, w_id x) \<in> set A])
           \<in> set (assignment_constraints A ss ws)"
  using assms
proof (induction ss)
  case Nil
  then show ?case by simp
next
  case (Cons a ss)
  show ?case
  proof (cases "s = a")
    case True
    have "(s_id a, w_id w) \<in> set [(s_id a, w_id x). x \<leftarrow> ws, (s_id a, w_id x) \<in> set A]"
      using Cons.prems(2,3) True by (auto simp: comprehension_filter)
    then have "[(s_id a, w_id x). x \<leftarrow> ws, (s_id a, w_id x) \<in> set A] \<noteq> []"
      by (metis empty_iff list.set(1))
    then show ?thesis unfolding True by (simp add: Let_def)
  next
    case False
    with Cons show ?thesis by (simp add: Let_def)
  qed
qed

lemma chosen_worker_unique:
  assumes sat: "satisfies (model_of ws P ss) sol"
      and s: "s \<in> set ss" and w: "w \<in> set ws" and w': "w' \<in> set ws"
      and k: "(s_id s, w_id w) \<in> set (A_vars (model_of ws P ss))"
      and k': "(s_id s, w_id w') \<in> set (A_vars (model_of ws P ss))"
      and v: "1 / 2 < A_value sol (s_id s, w_id w)"
      and v': "1 / 2 < A_value sol (s_id s, w_id w')"
  shows "w_id w = w_id w'"
proof (rule ccontr)
  assume ne: "w_id w \<noteq> w_id w'"
  define A where "A = A_vars (model_of ws P ss)"
  define ks where "ks = [(s_id s, w_id x). x \<leftarrow> ws, (s_id s, w_id x) \<in> set A]"
  have bin: "A_value sol q = 0 \<or> A_value sol q = 1" if "q \<in> set A" for q
    using sat that by (auto simp: satisfies_def A_def list_all_iff)
  have "(s_id s, ks) \<in> set (assign_cons (model_of ws P ss))"
    unfolding assign_cons_model_of ks_def A_def
    by (rule assignment_constraints_complete[OF s w k])
  with sat have sum: "sum_list (map (A_value sol) ks) = 1"
    by (auto simp: satisfies_def list_all_iff)
  have sub: "set ks \<subseteq> set A"
    by (auto simp: ks_def comprehension_filter)
  have nn: "\<forall>q \<in> set ks. 0 \<le> A_value sol q"
    using bin sub by fastforce
  have m1: "(s_id s, w_id w) \<in> set ks" and m2: "(s_id s, w_id w') \<in> set ks"
    using w w' k k' by (auto simp: ks_def A_def comprehension_filter)
  have "A_value sol (s_id s, w_id w) = 1" "A_value sol (s_id s, w_id w') = 1"
    using bin[of "(s_id s, w_id w)"] bin[of "(s_id s, w_id w')"] k k' v v'
    by (auto simp: A_def)
  moreover have "A_value sol (s_id s, w_id w) + A_value sol (s_id s, w_id w')
                  \<le> sum_list (map (A_value sol) ks)"
    by (rule sum_list_two_members[OF nn m1 m2]) (use ne in simp)
  ultimately show False using sum by simp
qed

text \<open>
  Claim C6, as the code has it. When the status is \<open>OPTIMAL\<close> the function returns a
  plan in which the count of every worker \<open>w\<close> is the ceiling of the value of
  \<open>B[w.id]\<close> minus \<open>1e-6\<close>, and the assignment of every slice is the id of the first
  worker, in the order of the worker list, whose variable \<open>A[s.id, w.id]\<close> exists and has
  a value above 0.5; a slice without such a worker has no assignment, and the plan is
  returned all the same. No key other than a slice id is assigned.
\<close>

theorem plan_read_off_solution:
  fixes bk ws P D sf
  defines "slices \<equiv> create_slices D sf"
  defines "m \<equiv> model_of ws P slices"
  defines "sol \<equiv> bk m"
  assumes "SolvingILP \<in> set (snd (solve_provisioning_ilp (Some bk) ws P D sf))"
      and "sol_status sol = OPTIMAL"
  shows "\<exists>counts assignments.
           fst (solve_provisioning_ilp (Some bk) ws P D sf) = (Some counts, Some assignments, slices)
         \<and> (\<forall>w \<in> set ws. counts (w_id w) = Some \<lceil>B_value sol (w_id w) - 1 / 1000000\<rceil>)
         \<and> (\<forall>s \<in> set slices. assignments (s_id s) =
               map_option w_id
                 (find (\<lambda>w. (s_id s, w_id w) \<in> set (A_vars m) \<and> A_value sol (s_id s, w_id w) > 1 / 2) ws))
         \<and> dom assignments \<subseteq> s_id ` set slices"
proof -
  have ne: "create_slices D sf \<noteq> []"
  proof
    assume "create_slices D sf = []"
    from solve_no_slices[OF this] assms(4) show False by simp
  qed
  have d: "distinct (map s_id slices)"
    unfolding slices_def by (rule create_slices_distinct)
  define counts where "counts = extract_counts (B_value sol) ws Map.empty"
  define assignments where
    "assignments = extract_assignments (A_vars m) (A_value sol) slices ws Map.empty"
  have r: "fst (solve_provisioning_ilp (Some bk) ws P D sf) = (Some counts, Some assignments, slices)"
    using assms(5)
    by (simp add: solve_with_backend[OF ne] Let_def counts_def assignments_def slices_def m_def sol_def)
  have c: "\<forall>w \<in> set ws. counts (w_id w) = Some \<lceil>B_value sol (w_id w) - 1 / 1000000\<rceil>"
    by (simp add: counts_def extract_counts_lookup)
  have a: "\<forall>s \<in> set slices. assignments (s_id s) =
               map_option w_id
                 (find (\<lambda>w. (s_id s, w_id w) \<in> set (A_vars m) \<and> A_value sol (s_id s, w_id w) > 1 / 2) ws)"
    by (auto simp: assignments_def extract_assignments_lookup[OF d] chosen_worker_def
          split: option.splits)
  have "assignments i = None" if "i \<notin> s_id ` set slices" for i
    using that by (simp add: assignments_def extract_assignments_other)
  then have dm: "dom assignments \<subseteq> s_id ` set slices"
    by (meson domIff subsetI)
  from r c a dm show ?thesis by blast
qed

theorem plan_read_off_solution_witness:
  "SolvingILP \<in> set (snd (solve_provisioning_ilp (Some backend_S1) [worker_A] profile_S1 [(''R1'', 10)] 1))
   \<and> sol_status (backend_S1 (model_of [worker_A] profile_S1 (create_slices [(''R1'', 10)] 1))) = OPTIMAL
   \<and> (\<exists>counts assignments.
         fst (solve_provisioning_ilp (Some backend_S1) [worker_A] profile_S1 [(''R1'', 10)] 1)
           = (Some counts, Some assignments, create_slices [(''R1'', 10)] 1)
         \<and> counts ''A'' = Some 2 \<and> assignments 0 = Some ''A'')"
proof -
  have ne: "create_slices [(''R1'', 10)] 1 \<noteq> []"
    by (simp add: slices_S1)
  have a: "SolvingILP \<in> set (snd (solve_provisioning_ilp (Some backend_S1) [worker_A] profile_S1 [(''R1'', 10)] 1))"
    by (simp add: solve_with_backend[OF ne] Let_def backend_S1_def)
  have b: "sol_status (backend_S1 (model_of [worker_A] profile_S1 (create_slices [(''R1'', 10)] 1))) = OPTIMAL"
    by (simp add: backend_S1_def)
  have v: "A_vars (model_of [worker_A] profile_S1 (create_slices [(''R1'', 10)] 1)) = [(0, ''A'')]"
    by (simp add: slices_S1 model_of_def worker_A_def profile_S1_def load_get_def
          slice_worker_load_def build_model_def)
  from plan_read_off_solution[OF a b] obtain counts assignments where
    r: "fst (solve_provisioning_ilp (Some backend_S1) [worker_A] profile_S1 [(''R1'', 10)] 1)
           = (Some counts, Some assignments, create_slices [(''R1'', 10)] 1)"
    and c: "\<forall>w \<in> set [worker_A]. counts (w_id w)
           = Some \<lceil>B_value (backend_S1 (model_of [worker_A] profile_S1 (create_slices [(''R1'', 10)] 1))) (w_id w) - 1 / 1000000\<rceil>"
    and s: "\<forall>s \<in> set (create_slices [(''R1'', 10)] 1). assignments (s_id s) =
               map_option w_id
                 (find (\<lambda>w. (s_id s, w_id w) \<in> set (A_vars (model_of [worker_A] profile_S1 (create_slices [(''R1'', 10)] 1)))
                          \<and> A_value (backend_S1 (model_of [worker_A] profile_S1 (create_slices [(''R1'', 10)] 1))) (s_id s, w_id w) > 1 / 2) [worker_A])"
    by blast
  from c have "counts ''A'' = Some 2"
    by (simp add: worker_A_def backend_S1_def)
  moreover from s have "assignments 0 = map_option w_id
      (find (\<lambda>w. (0, w_id w) \<in> set [(0, ''A'')] \<and> A_value (backend_S1 (model_of [worker_A] profile_S1 (create_slices [(''R1'', 10)] 1))) (0, w_id w) > 1 / 2) [worker_A])"
    by (simp add: v[unfolded slices_S1] slices_S1)
  then have "assignments 0 = Some ''A''"
    by (simp add: worker_A_def backend_S1_def)
  ultimately show ?thesis using a b r by blast
qed

text \<open>
  Claim C6 as stated fails: a backend that reports \<open>OPTIMAL\<close> with the only variable of
  slice 0 at one half gets a plan back, with no assignment for the slice, not a failure.
\<close>

theorem fractional_solution_counterexample:
  "solve_provisioning_ilp (Some backend_half) [worker_A] profile_S1 [(''R1'', 10)] 1
     = ((Some [''A'' \<mapsto> 1], Some Map.empty,
         [\<lparr>s_id = 0, request_type_id = ''R1'', rate_portion = 10\<rparr>]),
        [SolvingILP, OptimalFound])
   \<and> A_vars (model_of [worker_A] profile_S1 (create_slices [(''R1'', 10)] 1)) = [(0, ''A'')]
   \<and> A_value (backend_half (model_of [worker_A] profile_S1 (create_slices [(''R1'', 10)] 1))) (0, ''A'')
       = 1 / 2"
  by (simp add: solve_provisioning_ilp_def Let_def backend_half_def slices_S1 model_of_def
       worker_A_def profile_S1_def load_get_def slice_worker_load_def build_model_def chosen_worker_def)

section \<open>Slices that no worker can serve\<close>

lemma ceiling_noise: "\<lceil>- (1 / 1000000 :: real)\<rceil> = 0"
  by (simp add: ceiling_eq_iff)

lemma slices_S3:
  "create_slices [(''R1'', 1)] 2 =
     [\<lparr>s_id = 0, request_type_id = ''R1'', rate_portion = 1 / 2\<rparr>,
      \<lparr>s_id = 1, request_type_id = ''R1'', rate_portion = 1 / 2\<rparr>]"
  by (simp add: create_slices_def new_slices_def upto.simps)

lemma model_S3:
  "model_of [worker_A] Map.empty (create_slices [(''R1'', 1)] 2) =
     \<lparr>B_vars = [''A''], A_vars = [], assign_cons = [], capacity_cons = [], limit_cons = [],
      objective = [(''A'', 1)]\<rparr>"
  by (simp add: slices_S3 model_of_def build_model_def load_get_def slice_worker_load_def
        worker_A_def)

lemma printed_at_build_set:
  assumes "distinct (map s_id ss)"
  shows "set (printed_at_build ws P ss) =
     {WarnUnassignable (s_id s) (request_type_id s) | s.
        s \<in> set ss \<and> (\<forall>w \<in> set ws. spec_load P (w_id w) s = Infty)}
     \<union> (if ss \<noteq> [] \<and> (\<forall>s \<in> set ss. \<forall>w \<in> set ws. spec_load P (w_id w) s = Infty)
        then {ErrNoSlicesAssignable} else {})"
proof -
  define lm where "lm = calc_load_matrix P ss ws Map.empty"
  have l: "load_get lm (s_id s, w_id w) = spec_load P (w_id w) s"
    if "s \<in> set ss" "w \<in> set ws" for s w
    using calc_load_matrix_lookup[OF assms that] by (simp add: load_get_def lm_def)
  obtain A ex pr where dA: "declare_A lm ss ws [] False [] = (A, ex, pr)"
    by (cases "declare_A lm ss ws [] False []") auto
  from declare_A_exist[of lm ss ws "[]" False "[]"] dA l
  have ex: "ex \<longleftrightarrow> (\<exists>s \<in> set ss. \<exists>w \<in> set ws. spec_load P (w_id w) s \<noteq> Infty)"
    by auto
  from declare_A_printed[of lm ss ws "[]" False "[]"] dA l
  have pr: "set pr = {WarnUnassignable (s_id s) (request_type_id s) | s.
        s \<in> set ss \<and> (\<forall>w \<in> set ws. spec_load P (w_id w) s = Infty)}"
    by auto
  have "printed_at_build ws P ss
          = (if \<not> ex \<and> ss \<noteq> [] then pr @ [ErrNoSlicesAssignable] else pr)"
    using dA by (simp add: printed_at_build_def lm_def)
  then show ?thesis
    using ex pr by auto
qed

lemma slice_by_id:
  "distinct (map s_id ss) \<Longrightarrow> s \<in> set ss \<Longrightarrow> s' \<in> set ss \<Longrightarrow> s_id s = s_id s' \<Longrightarrow> s = s'"
  by (meson distinct_map inj_onD)

text \<open>
  Claim C1, as the code has it. When a slice has no worker with a finite load, the function
  prints a warning that names the slice id and its request type, creates no variable
  \<open>A\<close> for the slice, and calls the solver all the same. The result follows the status:
  a plan, in which the slice has no assignment, when the status is \<open>OPTIMAL\<close>, and
  \<open>(None, None, slices)\<close> otherwise.
\<close>

theorem unassignable_slice_still_solved:
  fixes bk ws P D sf s
  defines "slices \<equiv> create_slices D sf"
  defines "m \<equiv> model_of ws P slices"
  assumes "s \<in> set slices" and "\<forall>w \<in> set ws. spec_load P (w_id w) s = Infty"
  shows "WarnUnassignable (s_id s) (request_type_id s)
           \<in> set (snd (solve_provisioning_ilp (Some bk) ws P D sf))
       \<and> SolvingILP \<in> set (snd (solve_provisioning_ilp (Some bk) ws P D sf))
       \<and> (\<forall>k \<in> set (A_vars m). fst k \<noteq> s_id s)
       \<and> (sol_status (bk m) = OPTIMAL \<longrightarrow>
            (\<exists>counts assignments.
               fst (solve_provisioning_ilp (Some bk) ws P D sf) = (Some counts, Some assignments, slices)
               \<and> assignments (s_id s) = None))
       \<and> (sol_status (bk m) \<noteq> OPTIMAL \<longrightarrow>
            fst (solve_provisioning_ilp (Some bk) ws P D sf) = (None, None, slices))"
proof -
  have ne: "create_slices D sf \<noteq> []"
    using assms(3) unfolding slices_def by auto
  have d: "distinct (map s_id slices)"
    unfolding slices_def by (rule create_slices_distinct)
  have warn: "WarnUnassignable (s_id s) (request_type_id s) \<in> set (printed_at_build ws P slices)"
    unfolding printed_at_build_set[OF d] using assms(3,4) by blast
  have p1: "WarnUnassignable (s_id s) (request_type_id s)
           \<in> set (snd (solve_provisioning_ilp (Some bk) ws P D sf))"
    using warn by (simp add: solve_with_backend[OF ne] Let_def slices_def)
  have p2: "SolvingILP \<in> set (snd (solve_provisioning_ilp (Some bk) ws P D sf))"
    by (simp add: solve_with_backend[OF ne] Let_def)
  have p3: "\<forall>k \<in> set (A_vars m). fst k \<noteq> s_id s"
  proof
    fix k assume "k \<in> set (A_vars m)"
    then obtain s' w where k: "s' \<in> set slices" "w \<in> set ws" "k = (s_id s', w_id w)"
        "spec_load P (w_id w) s' \<noteq> Infty"
      unfolding m_def A_vars_iff[OF d] by blast
    show "fst k \<noteq> s_id s"
    proof
      assume "fst k = s_id s"
      with k have "s' = s" using slice_by_id[OF d k(1) assms(3)] by simp
      with k assms(4) show False by blast
    qed
  qed
  have none: "chosen_worker (A_vars m) Av s ws = None" for Av
    unfolding chosen_worker_def find_None_iff using p3 by force
  have p5: "sol_status (bk m) = OPTIMAL \<longrightarrow>
            (\<exists>counts assignments.
               fst (solve_provisioning_ilp (Some bk) ws P D sf) = (Some counts, Some assignments, slices)
               \<and> assignments (s_id s) = None)"
    using extract_assignments_lookup[OF d assms(3), of "A_vars m" _ ws Map.empty] none
    by (simp add: solve_with_backend[OF ne] Let_def slices_def[symmetric] m_def[symmetric])
  have p6: "sol_status (bk m) \<noteq> OPTIMAL \<longrightarrow>
            fst (solve_provisioning_ilp (Some bk) ws P D sf) = (None, None, slices)"
    by (simp add: solve_with_backend[OF ne] Let_def slices_def[symmetric] m_def[symmetric])
  from p1 p2 p3 p5 p6 show ?thesis by blast
qed

theorem unassignable_slice_still_solved_witness:
  "\<lparr>s_id = 0, request_type_id = ''R1'', rate_portion = 1 / 2\<rparr> \<in> set (create_slices [(''R1'', 1)] 2)
   \<and> spec_load Map.empty (w_id worker_A) \<lparr>s_id = 0, request_type_id = ''R1'', rate_portion = 1 / 2\<rparr> = Infty
   \<and> WarnUnassignable 0 ''R1''
       \<in> set (snd (solve_provisioning_ilp (Some backend_zero) [worker_A] Map.empty [(''R1'', 1)] 2))
   \<and> SolvingILP
       \<in> set (snd (solve_provisioning_ilp (Some backend_zero) [worker_A] Map.empty [(''R1'', 1)] 2))
   \<and> (\<exists>counts assignments.
        fst (solve_provisioning_ilp (Some backend_zero) [worker_A] Map.empty [(''R1'', 1)] 2)
          = (Some counts, Some assignments, create_slices [(''R1'', 1)] 2)
        \<and> assignments 0 = None)"
proof -
  let ?s = "\<lparr>s_id = 0, request_type_id = ''R1'', rate_portion = 1 / 2\<rparr>"
  have a: "?s \<in> set (create_slices [(''R1'', 1)] 2)"
    by (simp add: slices_S3)
  have b: "\<forall>w \<in> set [worker_A]. spec_load Map.empty (w_id w) ?s = Infty"
    by (simp add: spec_load_def)
  have c: "sol_status (backend_zero m) = OPTIMAL" for m
    by (simp add: backend_zero_def)
  from unassignable_slice_still_solved[OF a b, of backend_zero] a b c show ?thesis
    by simp
qed

text \<open>
  Claim C1 as stated fails on scenario S3 (demand \<open>{R1: 1}\<close>, empty profile, one worker,
  the default slice factor 2): the warnings name \<open>R1\<close>, but the solver is called, the
  model it gets has no constraint at all, the solution with every variable at 0 is optimal
  for it, and with that answer the function returns a plan with count 0, not a failure.
\<close>

theorem unassignable_slice_counterexample:
  "solve_provisioning_ilp (Some backend_zero) [worker_A] Map.empty [(''R1'', 1)] 2
     = ((Some [''A'' \<mapsto> 0], Some Map.empty,
         [\<lparr>s_id = 0, request_type_id = ''R1'', rate_portion = 1 / 2\<rparr>,
          \<lparr>s_id = 1, request_type_id = ''R1'', rate_portion = 1 / 2\<rparr>]),
        [WarnUnassignable 0 ''R1'', WarnUnassignable 1 ''R1'', ErrNoSlicesAssignable,
         SolvingILP, OptimalFound])
   \<and> optimal (model_of [worker_A] Map.empty (create_slices [(''R1'', 1)] 2))
             (backend_zero (model_of [worker_A] Map.empty (create_slices [(''R1'', 1)] 2)))"
proof -
  have "solve_provisioning_ilp (Some backend_zero) [worker_A] Map.empty [(''R1'', 1)] 2
     = ((Some [''A'' \<mapsto> 0], Some Map.empty,
         [\<lparr>s_id = 0, request_type_id = ''R1'', rate_portion = 1 / 2\<rparr>,
          \<lparr>s_id = 1, request_type_id = ''R1'', rate_portion = 1 / 2\<rparr>]),
        [WarnUnassignable 0 ''R1'', WarnUnassignable 1 ''R1'', ErrNoSlicesAssignable,
         SolvingILP, OptimalFound])"
    by (simp add: solve_provisioning_ilp_def Let_def backend_zero_def slices_S3
          worker_A_def load_get_def slice_worker_load_def build_model_def chosen_worker_def
          ceiling_noise)
  moreover have "optimal (model_of [worker_A] Map.empty (create_slices [(''R1'', 1)] 2))
             (backend_zero (model_of [worker_A] Map.empty (create_slices [(''R1'', 1)] 2)))"
    unfolding model_S3
    by (simp add: optimal_def satisfies_def objective_value_def backend_zero_def)
  ultimately show ?thesis by simp
qed

section \<open>Inputs the specification calls invalid\<close>

lemma slice_loop_clamp:
  "sf < 1 \<Longrightarrow> slice_loop D slices c sf = slice_loop D slices c 1"
  by (induction D slices c sf rule: slice_loop.induct) auto

lemma slice_loop_positive_only:
  "slice_loop D slices c sf = slice_loop (filter (\<lambda>(r, t). 0 < t) D) slices c sf"
  by (induction D slices c sf rule: slice_loop.induct) (auto simp: Let_def)

lemma solve_depends_on_slices:
  "create_slices D sf = create_slices D' sf' \<Longrightarrow>
   solve_provisioning_ilp solver ws P D sf = solve_provisioning_ilp solver ws P D' sf'"
  by (simp add: solve_provisioning_ilp_def)

lemma objective_model_of: "objective (model_of ws P ss) = map (\<lambda>w. (w_id w, cost w)) ws"
  by (simp add: model_of_def Let_def build_model_def split: prod.splits)

text \<open>
  Claim C2, as the code has it. No input is rejected. A slice factor below 1 gives the
  result of slice factor 1; demand entries whose rate is not positive are skipped, so the
  result is that of the demand without them; and the costs go into the objective as they
  are, whatever their sign.
\<close>

theorem invalid_input_not_rejected:
  "(sliceFactor < 1 \<longrightarrow>
      solve_provisioning_ilp solver ws P D sliceFactor = solve_provisioning_ilp solver ws P D 1)
   \<and> solve_provisioning_ilp solver ws P D sliceFactor
       = solve_provisioning_ilp solver ws P (filter (\<lambda>(r, t). 0 < t) D) sliceFactor
   \<and> objective (model_of ws P (create_slices D sliceFactor)) = map (\<lambda>w. (w_id w, cost w)) ws"
proof -
  have "create_slices D sliceFactor = create_slices D 1" if "sliceFactor < 1"
    using that by (simp add: create_slices_def slice_loop_clamp)
  moreover have "create_slices D sliceFactor = create_slices (filter (\<lambda>(r, t). 0 < t) D) sliceFactor"
    unfolding create_slices_def by (rule slice_loop_positive_only)
  ultimately show ?thesis
    using solve_depends_on_slices objective_model_of by blast
qed

theorem invalid_input_not_rejected_witness:
  "(0::int) < 1
   \<and> solve_provisioning_ilp (Some backend_S1) [worker_neg] profile_S1 [(''R1'', 10), (''R2'', - 3)] 0
       = solve_provisioning_ilp (Some backend_S1) [worker_neg] profile_S1 [(''R1'', 10), (''R2'', - 3)] 1
   \<and> solve_provisioning_ilp (Some backend_S1) [worker_neg] profile_S1 [(''R1'', 10), (''R2'', - 3)] 0
       = solve_provisioning_ilp (Some backend_S1) [worker_neg] profile_S1 [(''R1'', 10)] 0
   \<and> objective (model_of [worker_neg] profile_S1 (create_slices [(''R1'', 10), (''R2'', - 3)] 0))
       = [(''A'', - 1)]"
proof -
  note t = invalid_input_not_rejected[of 0 "Some backend_S1" "[worker_neg]" profile_S1
             "[(''R1'', 10), (''R2'', - 3)]"]
  have f: "filter (\<lambda>(r, t). 0 < t) [(''R1'', 10), (''R2'', - 3 :: real)] = [(''R1'', 10)]"
    by simp
  from t have "solve_provisioning_ilp (Some backend_S1) [worker_neg] profile_S1 [(''R1'', 10), (''R2'', - 3)] 0
       = solve_provisioning_ilp (Some backend_S1) [worker_neg] profile_S1 [(''R1'', 10), (''R2'', - 3)] 1"
    by simp
  moreover from t have "solve_provisioning_ilp (Some backend_S1) [worker_neg] profile_S1 [(''R1'', 10), (''R2'', - 3)] 0
       = solve_provisioning_ilp (Some backend_S1) [worker_neg] profile_S1 [(''R1'', 10)] 0"
    unfolding f by blast
  moreover from t have "objective (model_of [worker_neg] profile_S1 (create_slices [(''R1'', 10), (''R2'', - 3)] 0))
       = [(''A'', - 1)]"
    by (simp add: worker_neg_def)
  ultimately show ?thesis by simp
qed

text \<open>
  Claim C2 as stated fails: with slice factor 0 the model is built and solved and the plan
  of scenario S1 comes back; a demand whose only rate is negative gives the empty plan;
  a worker of cost \<open>-1\<close> is planned like any other.
\<close>

theorem invalid_input_counterexample:
  "solve_provisioning_ilp (Some backend_S1) [worker_A] profile_S1 [(''R1'', 10)] 0
     = ((Some [''A'' \<mapsto> 2], Some [0 \<mapsto> ''A''],
         [\<lparr>s_id = 0, request_type_id = ''R1'', rate_portion = 10\<rparr>]),
        [SolvingILP, OptimalFound])
   \<and> solve_provisioning_ilp (Some backend_S1) [worker_A] profile_S1 [(''R1'', - 1)] 2
     = ((Some [''A'' \<mapsto> 0], Some Map.empty, []), [NoSlices])
   \<and> solve_provisioning_ilp (Some backend_S1) [worker_neg] profile_S1 [(''R1'', 10)] 1
     = ((Some [''A'' \<mapsto> 2], Some [0 \<mapsto> ''A''],
         [\<lparr>s_id = 0, request_type_id = ''R1'', rate_portion = 10\<rparr>]),
        [SolvingILP, OptimalFound])"
  by (simp add: solve_provisioning_ilp_def Let_def create_slices_def new_slices_def backend_S1_def
        worker_A_def worker_neg_def profile_S1_def load_get_def slice_worker_load_def
        build_model_def chosen_worker_def)

section \<open>The bucket function\<close>

lemma ln2_less_1: "ln (2::real) < 1"
proof -
  have "ln (2::real) \<le> 2 - 1" by (rule ln_le_minus_one) simp
  moreover have "ln (2::real) \<noteq> 2 - 1"
    using ln_eq_minus_one[of "2::real"] by auto
  ultimately show ?thesis by simp
qed

lemma ln2_pos: "0 < ln (2::real)"
  by simp

lemma log2_one_minus:
  assumes "0 < t" "t < 1"
  shows "log 2 (1 - t) < - t"
proof -
  have "ln (1 - t) \<le> - t"
    using ln_one_minus_pos_upper_bound[of t] assms by simp
  then have "ln (1 - t) / ln 2 \<le> - t / ln 2"
    by (rule divide_right_mono) (rule less_imp_le[OF ln2_pos])
  also have "- t / ln 2 < - t"
  proof -
    have "t < t / ln 2"
      using assms(1) ln2_less_1 ln2_pos by (simp add: field_simps)
    then show ?thesis by simp
  qed
  finally show ?thesis by (simp add: log_def)
qed

lemma log2_one_plus:
  assumes "0 < t" "t \<le> 1 / 2"
  shows "t / 2 < log 2 (1 + t)"
proof -
  have "t - t\<^sup>2 \<le> ln (1 + t)"
    using ln_one_plus_pos_lower_bound[of t] assms by simp
  moreover have "t / 2 \<le> t - t\<^sup>2"
  proof -
    have "t * t \<le> t * (1 / 2)"
      using assms by (intro mult_left_mono) simp_all
    then show ?thesis by (simp add: power2_eq_square)
  qed
  ultimately have a: "t / 2 \<le> ln (1 + t)" by simp
  have p: "0 < ln (1 + t)" using assms by simp
  have "ln (1 + t) < ln (1 + t) / ln 2"
    using p ln2_less_1 ln2_pos by (simp add: field_simps)
  moreover have "log 2 (1 + t) = ln (1 + t) / ln 2" by (simp add: log_def)
  ultimately show ?thesis using a by linarith
qed

text \<open>
  The floor of an approximate binary logarithm is the exact one below \<open>2^47\<close>: next to
  a power of two the exact logarithm is further from the integer than the error allowed.
\<close>

lemma floor_approx_log2:
  fixes lg :: "real \<Rightarrow> real" and n :: int and k :: nat
  assumes exact: "\<forall>j<47. lg (2 ^ j) = real j"
      and acc: "\<forall>x. 1 \<le> x \<and> x < 2 ^ 47 \<longrightarrow> \<bar>lg x - log 2 x\<bar> \<le> 1 / 2 ^ 47"
      and lo: "2 ^ k \<le> n" and hi: "n < 2 ^ (k + 1)" and k: "1 \<le> k" "k \<le> 46"
  shows "\<lfloor>lg (real_of_int n)\<rfloor> = int k"
proof -
  have n1: "1 \<le> real_of_int n"
  proof -
    have "(1::int) \<le> 2 ^ k" by simp
    with lo show ?thesis by linarith
  qed
  have n47: "real_of_int n < 2 ^ 47"
  proof -
    have "(2::int) ^ (k + 1) \<le> 2 ^ 47"
      using k by (intro power_increasing) simp_all
    with hi have "n < 2 ^ 47" by linarith
    then have "real_of_int n < real_of_int (2 ^ 47)" by (rule of_int_less_iff[THEN iffD2])
    then show ?thesis by simp
  qed
  have eps: "lg (real_of_int n) \<le> log 2 (real_of_int n) + 1 / 2 ^ 47"
            "log 2 (real_of_int n) - 1 / 2 ^ 47 \<le> lg (real_of_int n)"
  proof -
    from acc n1 n47 have "\<bar>lg (real_of_int n) - log 2 (real_of_int n)\<bar> \<le> 1 / 2 ^ 47"
      by blast
    then show "lg (real_of_int n) \<le> log 2 (real_of_int n) + 1 / 2 ^ 47"
      and "log 2 (real_of_int n) - 1 / 2 ^ 47 \<le> lg (real_of_int n)"
      by linarith+
  qed
  have lp: "log 2 ((2::real) ^ j) = real j" for j
    by (simp add: log_nat_power)
  have small: "(1::real) / 2 ^ 47 \<le> 1 / 2 ^ (k + 1)"
    using k by (intro divide_left_mono power_increasing) simp_all
  \<comment> \<open>upper bound\<close>
  have "real_of_int n \<le> 2 ^ (k + 1) - 1"
  proof -
    from hi have "n \<le> 2 ^ (k + 1) - 1" by simp
    then have "real_of_int n \<le> real_of_int (2 ^ (k + 1) - 1)" by (rule of_int_le_iff[THEN iffD2])
    then show ?thesis by simp
  qed
  then have "log 2 (real_of_int n) \<le> log 2 (2 ^ (k + 1) - 1)"
    using n1 by (intro log_mono) simp_all
  also have "(2::real) ^ (k + 1) - 1 = 2 ^ (k + 1) * (1 - 1 / 2 ^ (k + 1))"
    by (simp add: field_simps)
  also have "log 2 (2 ^ (k + 1) * (1 - 1 / 2 ^ (k + 1))) = real (k + 1) + log 2 (1 - 1 / 2 ^ (k + 1))"
  proof -
    have "(1::real) < 2 ^ (k + 1)"
      by (rule one_less_power) simp_all
    then have "(0::real) < 1 - 1 / 2 ^ (k + 1)" by (simp add: field_simps)
    then have "log 2 (2 ^ (k + 1) * (1 - 1 / 2 ^ (k + 1)))
                 = log 2 (2 ^ (k + 1)) + log 2 (1 - 1 / 2 ^ (k + 1))"
      by (intro log_mult_pos) simp_all
    then show ?thesis
      by (simp only: lp)
  qed
  also have "\<dots> < real (k + 1) - 1 / 2 ^ (k + 1)"
  proof -
    have "(1::real) < 2 ^ (k + 1)"
      by (rule one_less_power) simp_all
    then have "(0::real) < 1 / 2 ^ (k + 1)" "(1::real) / 2 ^ (k + 1) < 1"
      by simp_all
    from log2_one_minus[OF this] show ?thesis by linarith
  qed
  finally have up: "lg (real_of_int n) < real (k + 1)"
    using eps(1) small by linarith
  \<comment> \<open>lower bound\<close>
  have low: "real k \<le> lg (real_of_int n)"
  proof (cases "n = 2 ^ k")
    case True
    then have "real_of_int n = 2 ^ k" by simp
    moreover from k have "k < 47" by simp
    ultimately show ?thesis using exact by simp
  next
    case False
    with lo have "2 ^ k + 1 \<le> n" by simp
    then have "real_of_int (2 ^ k + 1) \<le> real_of_int n" by (rule of_int_le_iff[THEN iffD2])
    then have ge: "(2::real) ^ k + 1 \<le> real_of_int n" by simp
    have "(2::real) ^ k + 1 = 2 ^ k * (1 + 1 / 2 ^ k)"
      by (simp add: field_simps)
    moreover have "log 2 (2 ^ k * (1 + 1 / 2 ^ k)) = real k + log 2 (1 + 1 / 2 ^ k)"
    proof -
      have "(0::real) < 1 + 1 / 2 ^ k" by (simp add: add_pos_nonneg)
      then have "log 2 (2 ^ k * (1 + 1 / 2 ^ k)) = log 2 (2 ^ k) + log 2 (1 + 1 / 2 ^ k)"
        by (intro log_mult_pos) simp_all
      then show ?thesis
        by (simp only: lp)
    qed
    moreover have "log 2 (2 ^ k + 1) \<le> log 2 (real_of_int n)"
      using ge by (intro log_mono) (simp_all add: add_pos_nonneg)
    ultimately have a: "real k + log 2 (1 + 1 / 2 ^ k) \<le> log 2 (real_of_int n)"
      by simp
    have half: "(1::real) / 2 ^ k \<le> 1 / 2"
      using k(1) power_increasing[of 1 k "2::real"] by (simp add: field_simps)
    have "(1::real) / 2 ^ 47 \<le> (1 / 2 ^ k) / 2"
    proof -
      have "(2::real) ^ (k + 1) \<le> 2 ^ 47"
        using k by (intro power_increasing) simp_all
      then have "(1::real) / 2 ^ 47 \<le> 1 / 2 ^ (k + 1)"
        by (intro divide_left_mono) simp_all
      then show ?thesis by simp
    qed
    also have "\<dots> < log 2 (1 + 1 / 2 ^ k)"
      using half by (intro log2_one_plus) simp_all
    finally show ?thesis using a eps(2) by linarith
  qed
  from low up show ?thesis
    by (simp add: floor_eq_iff)
qed


lemma bitlen_failing_input: "bitlen 1152921504606846975 = 60"
  by code_simp

lemma to_double_failing_input: "to_double (2 ^ 60 - 1) = 2 ^ 60"
  by (simp add: to_double_def bitlen_failing_input)

lemma floor_log2_bounds:
  assumes "2 \<le> n"
  shows "2 ^ nat \<lfloor>log 2 (real_of_int n)\<rfloor> \<le> n"
    and "n < 2 ^ (nat \<lfloor>log 2 (real_of_int n)\<rfloor> + 1)"
    and "1 \<le> nat \<lfloor>log 2 (real_of_int n)\<rfloor>"
proof -
  define k where "k = \<lfloor>log 2 (real_of_int n)\<rfloor>"
  have pos: "0 < real_of_int n" using assms by simp
  have "log 2 2 \<le> log 2 (real_of_int n)"
    using assms by (intro log_mono) simp_all
  then have k1: "1 \<le> k" by (simp add: k_def le_floor_iff)
  have b: "2 powr (real_of_int k) \<le> real_of_int n" "real_of_int n < 2 powr (real_of_int k + 1)"
    using floor_log_eq_powr_iff[of "real_of_int n" 2 k] pos by (simp_all add: k_def)
  have kn: "real_of_int k = real (nat k)" using k1 by simp
  have "(2::real) ^ nat k \<le> real_of_int n"
    using b(1) unfolding kn by (simp add: powr_realpow)
  then have "real_of_int (2 ^ nat k) \<le> real_of_int n" by simp
  then show "2 ^ nat \<lfloor>log 2 (real_of_int n)\<rfloor> \<le> n"
    unfolding k_def by (rule of_int_le_iff[THEN iffD1])
  have "real_of_int k + 1 = real (nat k + 1)" using k1 by simp
  then have "real_of_int n < (2::real) ^ (nat k + 1)"
    using b(2) by (simp only: powr_realpow[of 2, simplified])
  then have "real_of_int n < real_of_int (2 ^ (nat k + 1))" by simp
  then show "n < 2 ^ (nat \<lfloor>log 2 (real_of_int n)\<rfloor> + 1)"
    unfolding k_def by (rule of_int_less_iff[THEN iffD1])
  show "1 \<le> nat \<lfloor>log 2 (real_of_int n)\<rfloor>"
    using k1 unfolding k_def by arith
qed

text \<open>
  Claim C9, as the code has it. For every int \<open>n\<close> below \<open>2^47\<close>, and any library
  \<open>log2\<close> that is exact on the powers of two and within \<open>2^-47\<close> of the logarithm on
  the doubles from 1 to \<open>2^47\<close>, the bucket function returns \<open>"0-1"\<close> when \<open>n\<close> is at
  most 1, and otherwise \<open>"lo-hi"\<close> with \<open>lo\<close> 2 to the floor of the binary logarithm of
  \<open>n\<close> and \<open>hi\<close> twice \<open>lo\<close> minus 1.
\<close>

theorem bucket_follows_spec_in_range:
  assumes "\<forall>j<47. log2 (2 ^ j) = real j"
      and "\<forall>x. 1 \<le> x \<and> x < 2 ^ 47 \<longrightarrow> \<bar>log2 x - log 2 x\<bar> \<le> 1 / 2 ^ 47"
      and "n < 2 ^ 47"
  shows "get_power_of_two_bucket log2 n = spec_bucket n"
proof (cases "n \<le> 1")
  case True
  then show ?thesis by (simp add: get_power_of_two_bucket_def spec_bucket_def)
next
  case False
  then have n2: "2 \<le> n" by simp
  define k where "k = nat \<lfloor>log 2 (real_of_int n)\<rfloor>"
  note b = floor_log2_bounds[OF n2, folded k_def]
  have "(2::int) ^ k < 2 ^ 47" using b(1) assms(3) by linarith
  then have "k < 47" by (rule power_less_imp_less_exp[rotated]) simp
  then have k46: "k \<le> 46" by simp
  have fl: "\<lfloor>log2 (real_of_int n)\<rfloor> = int k"
    by (rule floor_approx_log2[OF assms(1,2) b(1,2) b(3) k46])
  have td: "to_double n = real_of_int n"
  proof -
    have "(2::int) ^ 47 \<le> 2 ^ 53" by simp
    with assms(3) have "n < 2 ^ 53" by linarith
    then show ?thesis by (simp add: to_double_def)
  qed
  have "nat (int k + 1) = k + 1" by simp
  with False fl td show ?thesis
    by (simp add: get_power_of_two_bucket_def spec_bucket_def Let_def k_def[symmetric] del: power_Suc)
qed

theorem bucket_follows_spec_in_range_witness:
  "(5::int) < 2 ^ 47 \<and> get_power_of_two_bucket (log 2) 5 = ''4-7'' \<and> spec_bucket 5 = ''4-7''"
proof -
  have e: "\<forall>j<47. log 2 ((2::real) ^ j) = real j"
    by (simp add: log_nat_power)
  have a: "\<forall>x. 1 \<le> x \<and> x < 2 ^ 47 \<longrightarrow> \<bar>log 2 x - log 2 x\<bar> \<le> 1 / 2 ^ 47"
    by simp
  have n: "(5::int) < 2 ^ 47" by simp
  have "\<lfloor>log 2 (5::real)\<rfloor> = 2"
    by (simp add: floor_log_eq_powr_iff)
  then have s: "spec_bucket 5 = ''4-7''"
    by (simp add: spec_bucket_def str_int_def str_nat.simps digit_char_def)
  from bucket_follows_spec_in_range[OF e a n] s n show ?thesis by simp
qed

text \<open>
  Claim C9 as stated fails for large ints, even with an exact logarithm on doubles: the int
  \<open>2^60 - 1\<close> has 60 significant bits and becomes the double \<open>2^60\<close>, whose logarithm is
  60, so the function returns the bucket from \<open>2^60\<close> to \<open>2^61 - 1\<close>, which does not
  hold \<open>n\<close>; the specification's bucket is the one from \<open>2^59\<close> to \<open>2^60 - 1\<close>.
\<close>

theorem bucket_large_input_counterexample:
  "get_power_of_two_bucket (log 2) (2 ^ 60 - 1) = ''1152921504606846976-2305843009213693951''
   \<and> spec_bucket (2 ^ 60 - 1) = ''576460752303423488-1152921504606846975''"
proof -
  have "\<lfloor>log 2 (real_of_int (2 ^ 60 - 1))\<rfloor> = 59"
    by (simp add: floor_log_eq_powr_iff)
  then have "spec_bucket (2 ^ 60 - 1) = ''576460752303423488-1152921504606846975''"
    by (simp add: spec_bucket_def str_int_def str_nat.simps digit_char_def)
  moreover have "\<lfloor>log 2 ((2::real) ^ 60)\<rfloor> = 60"
    by (simp add: floor_log_eq_powr_iff)
  then have "get_power_of_two_bucket (log 2) (2 ^ 60 - 1) = ''1152921504606846976-2305843009213693951''"
    using to_double_failing_input
    by (simp add: get_power_of_two_bucket_def str_int_def str_nat.simps digit_char_def)
  ultimately show ?thesis by simp
qed

end
